theory Spec2Isabelle
  imports Main "HOL-Library.Char_ord" "HOL-Library.List_Lexorder"
begin

section \<open>Strings and numbers\<close>

text \<open>
  A JavaScript string is modelled by its UTF-8 byte sequence, an Isabelle \<open>string\<close>.
  Concatenation, \<open>startsWith\<close> and the byte-wise ordering DynamoDB uses on string sort
  keys agree with that reading.  Version numbers, counters and clock readings are
  integers far below \<open>2^53\<close>, where JavaScript's numbers are exact; they are modelled
  by \<open>int\<close> and \<open>nat\<close>.
\<close>

definition startsWith :: "string \<Rightarrow> string \<Rightarrow> bool" where
  "startsWith s p = (take (length p) s = p)"

fun string_of_nat :: "nat \<Rightarrow> string" where
  "string_of_nat n =
     (if n < 10 then [''0123456789'' ! n]
      else string_of_nat (n div 10) @ [''0123456789'' ! (n mod 10)])"

declare string_of_nat.simps [simp del]

definition string_of_int :: "int \<Rightarrow> string" where
  "string_of_int i = (if i < 0 then CHR ''-'' # string_of_nat (nat (- i)) else string_of_nat (nat i))"

section \<open>Errors and the log\<close>

text \<open>
  The classes of \<open>lib/errors\<close> that the storage layer throws, and \<open>SdkError name message\<close>
  for an exception raised by the DynamoDB client.  \<open>error_name\<close> is the \<open>name\<close> property the
  catch blocks inspect: \<open>AppError\<close> sets it to the class name.
\<close>

datatype error =
    NotFoundError string string
  | ConflictError string
  | TooManyRequestsError string int
  | SdkError string string

fun error_name :: "error \<Rightarrow> string" where
  "error_name (NotFoundError resource identifier) = ''NotFoundError''"
| "error_name (ConflictError message) = ''ConflictError''"
| "error_name (TooManyRequestsError message retryAfter) = ''TooManyRequestsError''"
| "error_name (SdkError name message) = name"

definition ConditionalCheckFailedException :: error where
  "ConditionalCheckFailedException =
     SdkError ''ConditionalCheckFailedException'' ''The conditional request failed''"

definition ValidationException :: error where
  "ValidationException = SdkError ''ValidationException'' ''The provided expression or key is invalid''"

datatype level = DEBUG | INFO | WARN | ERROR

type_synonym log_entry = "level \<times> string"

section \<open>Data model (types)\<close>

record Attachment =
  id_att :: string
  fileName :: string
  contentType :: string
  sizeBytes :: int
  s3Key :: string
  uploadedAt :: string

record CreateNoteInput =
  studyDate :: string
  title :: string
  content :: string
  noteType :: "string option"
  tags :: "string list option"
  attachments :: "Attachment list option"

record UpdateNoteInput =
  title :: "string option"
  content :: "string option"
  noteType :: "string option"
  tags :: "string list option"
  attachments :: "Attachment list option"
  version :: int

record Note =
  noteId :: string
  clinicId :: string
  patientId :: string
  studyDate :: string
  title :: string
  content :: string
  noteType :: "string option"
  tags :: "string list option"
  attachments :: "Attachment list"
  createdAt :: string
  updatedAt :: string
  createdBy :: string
  createdByName :: string
  updatedBy :: string
  updatedByName :: string
  version :: int
  deletedAt :: "string option"
  deletedBy :: "string option"

text \<open>
  \<open>DynamoDBNoteItem\<close> has every attribute of \<open>Note\<close> and the key attributes \<open>PK\<close>, \<open>SK\<close>
  and \<open>entityType\<close>.  \<open>GSI1PK\<close> and \<open>GSI1SK\<close> are never written for a note and are left out.
\<close>

record DynamoDBNoteItem = Note +
  PK :: string
  SK :: string
  entityType :: string

text \<open>
  \<open>itemToNote\<close>, field by field.  The interface declares \<open>attachments\<close>, \<open>createdByName\<close>
  and \<open>updatedByName\<close> as always present, so their \<open>??\<close> fallbacks keep the value.
\<close>

definition itemToNote :: "DynamoDBNoteItem \<Rightarrow> Note" where
  "itemToNote item =
     \<lparr> noteId = noteId item,
       clinicId = clinicId item,
       patientId = patientId item,
       studyDate = studyDate item,
       title = title item,
       content = content item,
       noteType = noteType item,
       tags = Some (case tags item of None \<Rightarrow> [] | Some ts \<Rightarrow> ts),
       attachments = attachments item,
       createdAt = createdAt item,
       updatedAt = updatedAt item,
       createdBy = createdBy item,
       createdByName = createdByName item,
       updatedBy = updatedBy item,
       updatedByName = updatedByName item,
       version = version item,
       deletedAt = deletedAt item,
       deletedBy = deletedBy item \<rparr>"

record ListNotesOptions =
  cursor :: "string option"
  limit :: nat
  studyDateFrom :: "string option"
  studyDateTo :: "string option"
  tag :: "string option"

record PaginatedResponse =
  items :: "Note list"
  nextCursor :: "string option"
  hasMore :: bool

section \<open>Key scheme (\<open>data/keys.ts\<close>)\<close>

definition buildPK :: "string \<Rightarrow> string \<Rightarrow> string" where
  "buildPK clinic patient = ''CLINIC#'' @ clinic @ ''#PATIENT#'' @ patient"

definition buildSK :: "string \<Rightarrow> string \<Rightarrow> string" where
  "buildSK date note = ''NOTE#'' @ date @ ''#'' @ note"


section \<open>The store\<close>

text \<open>
  The table behind \<open>docClient\<close>.  Note items and rate-limit records live in one DynamoDB
  table under disjoint partition-key prefixes (\<open>CLINIC#\<close> and \<open>RATELIMIT#\<close>); the model
  keeps one list of items for each family.  An item is addressed by its own \<open>PK\<close> and
  \<open>SK\<close> attributes.

  \<open>faults\<close> is a script of injected failures, one entry for each \<open>docClient.send\<close>
  still to come (as \<open>mockRejectedValueOnce\<close> does in the unit tests): \<open>Some e\<close> makes
  that call throw \<open>e\<close> and leaves the table alone, \<open>None\<close> and an exhausted script let
  the call through.  \<open>logs\<close> collects what \<open>logger\<close> is asked to write, level and
  message.
\<close>

record RateLimitItem =
  PK_rl :: string
  SK_rl :: string
  count_rl :: int
  ttl :: int

record world =
  items :: "DynamoDBNoteItem list"
  windows :: "RateLimitItem list"
  faults :: "error option list"
  logs :: "log_entry list"

definition logger :: "level \<Rightarrow> string \<Rightarrow> world \<Rightarrow> world" where
  "logger lvl message w = w\<lparr>logs := logs w @ [(lvl, message)]\<rparr>"

definition take_fault :: "world \<Rightarrow> error option \<times> world" where
  "take_fault w = (case faults w of [] \<Rightarrow> (None, w) | f # fs \<Rightarrow> (f, w\<lparr>faults := fs\<rparr>))"

definition lookup_item :: "string \<times> string \<Rightarrow> DynamoDBNoteItem list \<Rightarrow> DynamoDBNoteItem option" where
  "lookup_item k tbl = find (\<lambda>it. (PK it, SK it) = k) tbl"

definition replace_item :: "string \<times> string \<Rightarrow> DynamoDBNoteItem \<Rightarrow> DynamoDBNoteItem list \<Rightarrow> DynamoDBNoteItem list" where
  "replace_item k new tbl = map (\<lambda>it. if (PK it, SK it) = k then new else it) tbl"

text \<open>\<open>PutCommand\<close> with \<open>ConditionExpression: attribute_not_exists(PK)\<close>.\<close>

definition send_PutCommand :: "DynamoDBNoteItem \<Rightarrow> world \<Rightarrow> (error + unit) \<times> world" where
  "send_PutCommand item w =
     (case take_fault w of
        (Some e, w') \<Rightarrow> (Inl e, w')
      | (None, w') \<Rightarrow>
          (case lookup_item (PK item, SK item) (items w') of
             Some existing \<Rightarrow> (Inl ConditionalCheckFailedException, w')
           | None \<Rightarrow> (Inr (), w'\<lparr>items := items w' @ [item]\<rparr>)))"

text \<open>\<open>GetCommand\<close>: the response's \<open>Item\<close>.\<close>

definition send_GetCommand :: "string \<times> string \<Rightarrow> world \<Rightarrow> (error + DynamoDBNoteItem option) \<times> world" where
  "send_GetCommand k w =
     (case take_fault w of
        (Some e, w') \<Rightarrow> (Inl e, w')
      | (None, w') \<Rightarrow> (Inr (lookup_item k (items w')), w'))"

text \<open>
  \<open>UpdateCommand\<close>.  The clauses of a \<open>SET\<close> expression and the conjuncts of a condition
  expression are values; the repository builds the lists the way it builds its
  expression strings.
\<close>

datatype set_clause =
    Set_updatedAt string
  | Set_updatedBy string
  | Set_updatedByName string
  | Set_version_plus int
  | Set_title string
  | Set_content string
  | Set_attachments "Attachment list"
  | Set_deletedAt string
  | Set_deletedBy string

fun apply_clause :: "DynamoDBNoteItem \<Rightarrow> set_clause \<Rightarrow> DynamoDBNoteItem" where
  "apply_clause item (Set_updatedAt v) = item\<lparr>updatedAt := v\<rparr>"
| "apply_clause item (Set_updatedBy v) = item\<lparr>updatedBy := v\<rparr>"
| "apply_clause item (Set_updatedByName v) = item\<lparr>updatedByName := v\<rparr>"
| "apply_clause item (Set_version_plus inc) = item\<lparr>version := version item + inc\<rparr>"
| "apply_clause item (Set_title v) = item\<lparr>title := v\<rparr>"
| "apply_clause item (Set_content v) = item\<lparr>content := v\<rparr>"
| "apply_clause item (Set_attachments v) = item\<lparr>attachments := v\<rparr>"
| "apply_clause item (Set_deletedAt v) = item\<lparr>deletedAt := Some v\<rparr>"
| "apply_clause item (Set_deletedBy v) = item\<lparr>deletedBy := Some v\<rparr>"

datatype condition =
    attribute_exists_PK
  | attribute_not_exists_deletedAt
  | version_equals int

fun holds :: "DynamoDBNoteItem option \<Rightarrow> condition \<Rightarrow> bool" where
  "holds None attribute_exists_PK = False"
| "holds (Some item) attribute_exists_PK = True"
| "holds None attribute_not_exists_deletedAt = True"
| "holds (Some item) attribute_not_exists_deletedAt = (deletedAt item = None)"
| "holds None (version_equals v) = False"
| "holds (Some item) (version_equals v) = (version item = v)"

text \<open>
  The condition is evaluated on the current item; when it fails nothing is written and
  the call throws \<open>ConditionalCheckFailedException\<close>.  Otherwise the clauses are applied
  to the item and the response carries the new item (\<open>ReturnValues: ALL_NEW\<close>).  Both
  callers require \<open>attribute_exists(PK)\<close>; without it an update of a missing key would
  have to create a partial item, which DynamoDB rejects for \<open>version = version + :inc\<close>.
\<close>

definition send_UpdateCommand ::
  "string \<times> string \<Rightarrow> set_clause list \<Rightarrow> condition list \<Rightarrow> world
     \<Rightarrow> (error + DynamoDBNoteItem option) \<times> world" where
  "send_UpdateCommand k clauses conds w =
     (case take_fault w of
        (Some e, w') \<Rightarrow> (Inl e, w')
      | (None, w') \<Rightarrow>
          (let current = lookup_item k (items w') in
           if \<not> list_all (holds current) conds then (Inl ConditionalCheckFailedException, w')
           else (case current of
                   None \<Rightarrow> (Inl ValidationException, w')
                 | Some item \<Rightarrow>
                     (let new = foldl apply_clause item clauses
                      in (Inr (Some new), w'\<lparr>items := replace_item k new (items w')\<rparr>)))))"

section \<open>Note repository (\<open>data/notes.repository.ts\<close>)\<close>

text \<open>
  JavaScript truthiness of an optional string: \<open>undefined\<close> and the empty string are
  falsy.
\<close>

fun truthy :: "string option \<Rightarrow> bool" where
  "truthy None = False"
| "truthy (Some s) = (s \<noteq> [])"

text \<open>
  \<open>create\<close>.  The fresh \<open>uuidv4()\<close> and the clock reading \<open>new Date().toISOString()\<close> are
  arguments.  A failed put is not caught.
\<close>

definition create ::
  "string \<Rightarrow> string \<Rightarrow> string \<Rightarrow> string \<Rightarrow> string \<Rightarrow> string \<Rightarrow> CreateNoteInput \<Rightarrow> world
     \<Rightarrow> (error + Note) \<times> world" where
  "create clinic patient userId username uuid now input w =
     (let pk = buildPK clinic patient;
          sk = buildSK (CreateNoteInput.studyDate input) uuid;
          item = \<lparr> noteId = uuid,
                   clinicId = clinic,
                   patientId = patient,
                   studyDate = CreateNoteInput.studyDate input,
                   title = CreateNoteInput.title input,
                   content = CreateNoteInput.content input,
                   noteType = CreateNoteInput.noteType input,
                   tags = Some (case CreateNoteInput.tags input of None \<Rightarrow> [] | Some ts \<Rightarrow> ts),
                   attachments = (case CreateNoteInput.attachments input of None \<Rightarrow> [] | Some as \<Rightarrow> as),
                   createdAt = now,
                   updatedAt = now,
                   createdBy = userId,
                   createdByName = username,
                   updatedBy = userId,
                   updatedByName = username,
                   version = 1,
                   deletedAt = None,
                   deletedBy = None,
                   PK = pk,
                   SK = sk,
                   entityType = ''NOTE'' \<rparr>
      in case send_PutCommand item w of
           (Inl err, w1) \<Rightarrow> (Inl err, w1)
         | (Inr u, w1) \<Rightarrow> (Inr (itemToNote item), logger INFO ''Note created'' w1))"

definition findById ::
  "string \<Rightarrow> string \<Rightarrow> string \<Rightarrow> string \<Rightarrow> world \<Rightarrow> (error + Note option) \<times> world" where
  "findById clinic patient note date w =
     (let pk = buildPK clinic patient;
          sk = buildSK date note
      in case send_GetCommand (pk, sk) w of
           (Inl err, w1) \<Rightarrow> (Inl err, w1)
         | (Inr None, w1) \<Rightarrow> (Inr None, w1)
         | (Inr (Some item), w1) \<Rightarrow>
             if truthy (deletedAt item) then (Inr None, w1)
             else (Inr (Some (itemToNote item)), w1))"

text \<open>
  \<open>update\<close>.  \<open>update_try\<close> is the body of the \<open>try\<close> block, \<open>update\<close> adds the \<open>catch\<close>:
  only an exception named \<open>ConditionalCheckFailedException\<close> is translated, after a
  re-read through \<open>findById\<close>; any other is thrown again.
\<close>

definition conflict_message :: "int \<Rightarrow> int \<Rightarrow> string" where
  "conflict_message expected current =
     ''Version conflict: expected '' @ string_of_int expected @ '', current is '' @ string_of_int current"

definition updateExpressions :: "string \<Rightarrow> string \<Rightarrow> string \<Rightarrow> UpdateNoteInput \<Rightarrow> set_clause list" where
  "updateExpressions now userId username input =
     [Set_updatedAt now, Set_updatedBy userId, Set_updatedByName username, Set_version_plus 1]
     @ (case UpdateNoteInput.title input of None \<Rightarrow> [] | Some v \<Rightarrow> [Set_title v])
     @ (case UpdateNoteInput.content input of None \<Rightarrow> [] | Some v \<Rightarrow> [Set_content v])
     @ (case UpdateNoteInput.attachments input of None \<Rightarrow> [] | Some v \<Rightarrow> [Set_attachments v])"

definition update_try ::
  "string \<Rightarrow> string \<Rightarrow> string \<Rightarrow> string \<Rightarrow> string \<Rightarrow> string \<Rightarrow> string \<Rightarrow> UpdateNoteInput \<Rightarrow> world
     \<Rightarrow> (error + Note) \<times> world" where
  "update_try clinic patient note date userId username now input w =
     (let pk = buildPK clinic patient;
          sk = buildSK date note
      in case send_UpdateCommand (pk, sk) (updateExpressions now userId username input)
                [attribute_exists_PK, attribute_not_exists_deletedAt,
                 version_equals (UpdateNoteInput.version input)] w of
           (Inl err, w1) \<Rightarrow> (Inl err, w1)
         | (Inr None, w1) \<Rightarrow> (Inl (NotFoundError ''Note'' note), w1)
         | (Inr (Some attrs), w1) \<Rightarrow> (Inr (itemToNote attrs), logger INFO ''Note updated'' w1))"

definition update ::
  "string \<Rightarrow> string \<Rightarrow> string \<Rightarrow> string \<Rightarrow> string \<Rightarrow> string \<Rightarrow> string \<Rightarrow> UpdateNoteInput \<Rightarrow> world
     \<Rightarrow> (error + Note) \<times> world" where
  "update clinic patient note date userId username now input w =
     (case update_try clinic patient note date userId username now input w of
        (Inr result, w1) \<Rightarrow> (Inr result, w1)
      | (Inl err, w1) \<Rightarrow>
          if error_name err = ''ConditionalCheckFailedException'' then
            (case findById clinic patient note date w1 of
               (Inl err2, w2) \<Rightarrow> (Inl err2, w2)
             | (Inr None, w2) \<Rightarrow> (Inl (NotFoundError ''Note'' note), w2)
             | (Inr (Some existing), w2) \<Rightarrow>
                 (Inl (ConflictError (conflict_message (UpdateNoteInput.version input) (version existing))), w2))
          else (Inl err, w1))"

text \<open>\<open>softDelete\<close>: the \<open>try\<close> body, then the \<open>catch\<close>.\<close>

definition softDelete_try ::
  "string \<Rightarrow> string \<Rightarrow> string \<Rightarrow> string \<Rightarrow> string \<Rightarrow> string \<Rightarrow> world \<Rightarrow> (error + unit) \<times> world" where
  "softDelete_try clinic patient note date userId now w =
     (let pk = buildPK clinic patient;
          sk = buildSK date note
      in case send_UpdateCommand (pk, sk) [Set_deletedAt now, Set_deletedBy userId]
                [attribute_exists_PK, attribute_not_exists_deletedAt] w of
           (Inl err, w1) \<Rightarrow> (Inl err, w1)
         | (Inr attrs, w1) \<Rightarrow> (Inr (), logger INFO ''Note soft deleted'' w1))"

definition softDelete ::
  "string \<Rightarrow> string \<Rightarrow> string \<Rightarrow> string \<Rightarrow> string \<Rightarrow> string \<Rightarrow> world \<Rightarrow> (error + unit) \<times> world" where
  "softDelete clinic patient note date userId now w =
     (case softDelete_try clinic patient note date userId now w of
        (Inr u, w1) \<Rightarrow> (Inr u, w1)
      | (Inl err, w1) \<Rightarrow>
          if error_name err = ''ConditionalCheckFailedException''
          then (Inl (NotFoundError ''Note'' note), w1)
          else (Inl err, w1))"

text \<open>
  A client session on one note: update calls issued one after the other, each with its
  editor, clock reading and input; the results are collected in order.
\<close>

type_synonym update_call = "string \<times> string \<times> string \<times> UpdateNoteInput"

fun run_updates ::
  "string \<Rightarrow> string \<Rightarrow> string \<Rightarrow> string \<Rightarrow> update_call list \<Rightarrow> world
     \<Rightarrow> (error + Note) list \<times> world" where
  "run_updates clinic patient note date [] w = ([], w)"
| "run_updates clinic patient note date ((userId, username, now, input) # calls) w =
     (case update clinic patient note date userId username now input w of
        (r, w1) \<Rightarrow>
          (case run_updates clinic patient note date calls w1 of
             (rs, w2) \<Rightarrow> (r # rs, w2)))"

definition succeeded :: "(error + 'a) list \<Rightarrow> nat" where
  "succeeded rs = length (filter (\<lambda>r. \<not> isl r) rs)"

section \<open>Example data\<close>

definition world0 :: world where
  "world0 = \<lparr>items = [], windows = [], faults = [], logs = []\<rparr>"

definition input0 :: CreateNoteInput where
  "input0 = \<lparr> CreateNoteInput.studyDate = ''2024-01-15'', CreateNoteInput.title = ''Title'',
      CreateNoteInput.content = ''Content'', CreateNoteInput.noteType = None,
      CreateNoteInput.tags = None, CreateNoteInput.attachments = None \<rparr>"

definition retitle :: "int \<Rightarrow> string \<Rightarrow> UpdateNoteInput" where
  "retitle v t = \<lparr> UpdateNoteInput.title = Some t, UpdateNoteInput.content = None,
      UpdateNoteInput.noteType = None, UpdateNoteInput.tags = None,
      UpdateNoteInput.attachments = None, UpdateNoteInput.version = v \<rparr>"

section \<open>Rate limiter (\<open>lib/rate-limiter.ts\<close>, \<open>lib/rate-limit-config.ts\<close>)\<close>

record RateLimitConfig =
  maxRequests :: int
  windowSeconds :: int
  name :: string

definition RATE_LIMITS_login :: RateLimitConfig where
  "RATE_LIMITS_login = \<lparr>maxRequests = 10, windowSeconds = 60, name = ''login''\<rparr>"

record RateLimitResult =
  allowed :: bool
  current :: int
  limit :: int
  retryAfter :: int

definition buildRateLimitPK :: "string \<Rightarrow> string \<Rightarrow> string" where
  "buildRateLimitPK identifier configName = ''RATELIMIT#'' @ configName @ ''#'' @ identifier"

text \<open>
  \<open>Date.now()\<close> is an argument, in milliseconds, read once for the whole operation.
  \<open>Math.floor(now / 1000 / windowSeconds)\<close> is the floor of a real quotient, which for
  integers is \<open>now div (1000 * windowSeconds)\<close>.
\<close>

definition buildRateLimitSK :: "int \<Rightarrow> int \<Rightarrow> string" where
  "buildRateLimitSK windowSecs now =
     (let windowStart = now div (1000 * windowSecs) * windowSecs
      in ''WINDOW#'' @ string_of_int windowStart)"

definition lookup_window :: "string \<times> string \<Rightarrow> RateLimitItem list \<Rightarrow> RateLimitItem option" where
  "lookup_window k tbl = find (\<lambda>r. (PK_rl r, SK_rl r) = k) tbl"

definition upsert_window :: "RateLimitItem \<Rightarrow> RateLimitItem list \<Rightarrow> RateLimitItem list" where
  "upsert_window new tbl =
     (case lookup_window (PK_rl new, SK_rl new) tbl of
        None \<Rightarrow> tbl @ [new]
      | Some old \<Rightarrow> map (\<lambda>r. if (PK_rl r, SK_rl r) = (PK_rl new, SK_rl new) then new else r) tbl)"

text \<open>
  \<open>UpdateCommand\<close> with \<open>SET #count = if_not_exists(#count, :zero) + :inc, #ttl = :ttl\<close> and
  no condition: one step of the store that creates the record when it is missing.  The
  response carries the written attributes (\<open>ReturnValues: UPDATED_NEW\<close>).
\<close>

definition send_UpdateCommand_count ::
  "string \<times> string \<Rightarrow> int \<Rightarrow> world \<Rightarrow> (error + RateLimitItem option) \<times> world" where
  "send_UpdateCommand_count k newTtl w =
     (case take_fault w of
        (Some e, w') \<Rightarrow> (Inl e, w')
      | (None, w') \<Rightarrow>
          (let zero = 0; inc = 1;
               old = (case lookup_window k (windows w') of None \<Rightarrow> zero | Some r \<Rightarrow> count_rl r);
               new = \<lparr>PK_rl = fst k, SK_rl = snd k, count_rl = old + inc, ttl = newTtl\<rparr>
           in (Inr (Some new), w'\<lparr>windows := upsert_window new (windows w')\<rparr>)))"

text \<open>\<open>GetCommand\<close> on a rate-limit record.\<close>

definition send_GetCommand_count ::
  "string \<times> string \<Rightarrow> world \<Rightarrow> (error + RateLimitItem option) \<times> world" where
  "send_GetCommand_count k w =
     (case take_fault w of
        (Some e, w') \<Rightarrow> (Inl e, w')
      | (None, w') \<Rightarrow> (Inr (lookup_window k (windows w')), w'))"

definition checkRateLimit :: "string \<Rightarrow> RateLimitConfig \<Rightarrow> int \<Rightarrow> world \<Rightarrow> RateLimitResult \<times> world" where
  "checkRateLimit identifier config now w =
     (let pk = buildRateLimitPK identifier (name config);
          sk = buildRateLimitSK (windowSeconds config) now
      in case send_GetCommand_count (pk, sk) w of
           (Inr item, w1) \<Rightarrow>
             (let cur = (case item of None \<Rightarrow> 0 | Some r \<Rightarrow> count_rl r);
                  windowStart = now div (1000 * windowSeconds config) * windowSeconds config;
                  windowEnd = windowStart + windowSeconds config;
                  retry = max 1 (windowEnd - now div 1000)
              in (\<lparr>allowed = cur < maxRequests config, current = cur,
                   limit = maxRequests config, retryAfter = retry\<rparr>, w1))
         | (Inl err, w1) \<Rightarrow>
             (\<lparr>allowed = True, current = 0, limit = maxRequests config,
               retryAfter = windowSeconds config\<rparr>,
              logger WARN ''Rate limit check failed, allowing request (fail-open)'' w1))"

definition incrementRateLimit :: "string \<Rightarrow> RateLimitConfig \<Rightarrow> int \<Rightarrow> world \<Rightarrow> RateLimitResult \<times> world" where
  "incrementRateLimit identifier config now w =
     (let pk = buildRateLimitPK identifier (name config);
          sk = buildRateLimitSK (windowSeconds config) now;
          windowStart = now div (1000 * windowSeconds config) * windowSeconds config;
          newTtl = windowStart + windowSeconds config + 60
      in case send_UpdateCommand_count (pk, sk) newTtl w of
           (Inr attrs, w1) \<Rightarrow>
             (let cur = (case attrs of None \<Rightarrow> 1 | Some r \<Rightarrow> count_rl r);
                  windowEnd = windowStart + windowSeconds config;
                  retry = max 1 (windowEnd - now div 1000)
              in (\<lparr>allowed = cur \<le> maxRequests config, current = cur,
                   limit = maxRequests config, retryAfter = retry\<rparr>, w1))
         | (Inl err, w1) \<Rightarrow>
             (\<lparr>allowed = True, current = 0, limit = maxRequests config,
               retryAfter = windowSeconds config\<rparr>,
              logger WARN ''Rate limit increment failed, allowing request (fail-open)'' w1))"

definition enforceRateLimit :: "string \<Rightarrow> RateLimitConfig \<Rightarrow> int \<Rightarrow> world \<Rightarrow> (error + unit) \<times> world" where
  "enforceRateLimit identifier config now w =
     (case incrementRateLimit identifier config now w of
        (result, w1) \<Rightarrow>
          if \<not> allowed result then
            (Inl (TooManyRequestsError
                    (''Rate limit exceeded for '' @ name config @ ''. Please try again later.'')
                    (retryAfter result)),
             logger WARN ''Rate limit exceeded'' w1)
          else (Inr (), logger DEBUG ''Rate limit check passed'' w1))"

text \<open>Increments by one identifier under one policy, at the given clock readings.\<close>

fun run_increments :: "string \<Rightarrow> RateLimitConfig \<Rightarrow> int list \<Rightarrow> world \<Rightarrow> RateLimitResult list \<times> world" where
  "run_increments identifier config [] w = ([], w)"
| "run_increments identifier config (now # later) w =
     (case incrementRateLimit identifier config now w of
        (r, w1) \<Rightarrow>
          (case run_increments identifier config later w1 of
             (rs, w2) \<Rightarrow> (r # rs, w2)))"

text \<open>Reading a decimal numeral back, to tell window keys apart.\<close>

definition digit_value :: "char \<Rightarrow> nat" where
  "digit_value c = of_char c - 48"

definition nat_of_string :: "string \<Rightarrow> nat" where
  "nat_of_string s = foldl (\<lambda>acc c. 10 * acc + digit_value c) 0 s"

text \<open>The counter stored under a rate-limit key, 0 when there is no record.\<close>

definition stored_count :: "string \<times> string \<Rightarrow> world \<Rightarrow> int" where
  "stored_count k w = (case lookup_window k (windows w) of None \<Rightarrow> 0 | Some r \<Rightarrow> count_rl r)"

section \<open>Cursor codec (\<open>data/cursor.ts\<close>)\<close>

subsection \<open>\<open>Buffer\<close>: base64url\<close>

text \<open>
  \<open>Buffer.from(json, 'utf-8').toString('base64url')\<close>: three bytes become four characters
  of the URL-safe alphabet, without padding.  On byte strings the UTF-8 transcoding of
  \<open>Buffer\<close> is the identity.
\<close>

definition b64_char :: "nat \<Rightarrow> char" where
  "b64_char n =
     (if n < 26 then char_of (65 + n)
      else if n < 52 then char_of (71 + n)
      else if n < 62 then char_of (n - 4)
      else if n = 62 then CHR ''-''
      else CHR ''_'')"

fun base64url_encode :: "string \<Rightarrow> string" where
  "base64url_encode (a # b # c # rest) =
     (let x = of_char a :: nat; y = of_char b :: nat; z = of_char c :: nat
      in [b64_char (x div 4), b64_char (x mod 4 * 16 + y div 16),
          b64_char (y mod 16 * 4 + z div 64), b64_char (z mod 64)])
     @ base64url_encode rest"
| "base64url_encode [a, b] =
     (let x = of_char a :: nat; y = of_char b :: nat
      in [b64_char (x div 4), b64_char (x mod 4 * 16 + y div 16), b64_char (y mod 16 * 4)])"
| "base64url_encode [a] =
     (let x = of_char a :: nat in [b64_char (x div 4), b64_char (x mod 4 * 16)])"
| "base64url_encode [] = []"

text \<open>The six-bit groups behind \<open>base64url_encode\<close>, before they are written as characters.\<close>

fun sextets :: "string \<Rightarrow> nat list" where
  "sextets (a # b # c # rest) =
     (let x = of_char a :: nat; y = of_char b :: nat; z = of_char c :: nat
      in [x div 4, x mod 4 * 16 + y div 16, y mod 16 * 4 + z div 64, z mod 64])
     @ sextets rest"
| "sextets [a, b] =
     (let x = of_char a :: nat; y = of_char b :: nat
      in [x div 4, x mod 4 * 16 + y div 16, y mod 16 * 4])"
| "sextets [a] = (let x = of_char a :: nat in [x div 4, x mod 4 * 16])"
| "sextets [] = []"

text \<open>
  \<open>Buffer.from(cursor, 'base64url')\<close> never throws: decoding stops at the first \<open>=\<close>,
  skips every character outside the two base64 alphabets (both are accepted), and a
  trailing group of two or three characters yields one or two bytes.
\<close>

definition b64_value :: "char \<Rightarrow> nat option" where
  "b64_value c =
     (let n = of_char c :: nat
      in if 65 \<le> n \<and> n \<le> 90 then Some (n - 65)
         else if 97 \<le> n \<and> n \<le> 122 then Some (n - 71)
         else if 48 \<le> n \<and> n \<le> 57 then Some (n + 4)
         else if c = CHR ''-'' \<or> c = CHR ''+'' then Some 62
         else if c = CHR ''_'' \<or> c = CHR ''/'' then Some 63
         else None)"

fun decode_sextets :: "nat list \<Rightarrow> string" where
  "decode_sextets (p # q # r # s # rest) =
     [char_of (p * 4 + q div 16), char_of (q mod 16 * 16 + r div 4), char_of (r mod 4 * 64 + s)]
     @ decode_sextets rest"
| "decode_sextets [p, q, r] = [char_of (p * 4 + q div 16), char_of (q mod 16 * 16 + r div 4)]"
| "decode_sextets [p, q] = [char_of (p * 4 + q div 16)]"
| "decode_sextets [p] = []"
| "decode_sextets [] = []"

definition base64url_decode :: "string \<Rightarrow> string" where
  "base64url_decode s =
     decode_sextets (List.map_filter b64_value (takeWhile (\<lambda>c. c \<noteq> CHR ''='') s))"

subsection \<open>\<open>JSON\<close>\<close>

datatype json =
    JNull
  | JBool bool
  | JNumber string
  | JString string
  | JArray "json list"
  | JObject "(string \<times> json) list"

text \<open>
  \<open>JSON.stringify\<close> of a string: the quotation mark and the reverse solidus are escaped,
  the control characters below U+0020 are written as \<open>\b \t \n \f \r\<close> or \<open>\u00XX\<close>,
  every other byte is copied.
\<close>

definition hex_digit :: "nat \<Rightarrow> char" where
  "hex_digit n = ''0123456789abcdef'' ! n"

definition escape_char :: "char \<Rightarrow> string" where
  "escape_char c =
     (if c = CHR 0x22 then [CHR 0x5C, CHR 0x22]
      else if c = CHR 0x5C then [CHR 0x5C, CHR 0x5C]
      else if c = CHR 0x08 then [CHR 0x5C, CHR ''b'']
      else if c = CHR 0x09 then [CHR 0x5C, CHR ''t'']
      else if c = CHR 0x0A then [CHR 0x5C, CHR ''n'']
      else if c = CHR 0x0C then [CHR 0x5C, CHR ''f'']
      else if c = CHR 0x0D then [CHR 0x5C, CHR ''r'']
      else if (of_char c :: nat) < 32 then
        [CHR 0x5C, CHR ''u'', CHR ''0'', CHR ''0'',
         hex_digit (of_char c div 16), hex_digit (of_char c mod 16)]
      else [c])"

definition quote :: "string \<Rightarrow> string" where
  "quote s = CHR 0x22 # concat (map escape_char s) @ [CHR 0x22]"

text \<open>\<open>JSON.stringify\<close> of the object \<open>{ PK, SK }\<close>, the only value the codec serialises.\<close>

definition JSON_stringify_CursorData :: "string \<times> string \<Rightarrow> string" where
  "JSON_stringify_CursorData cursorData =
     ''{'' @ quote ''PK'' @ '':'' @ quote (fst cursorData) @ '','' @
            quote ''SK'' @ '':'' @ quote (snd cursorData) @ ''}''"

text \<open>
  \<open>JSON.parse\<close>.  \<open>None\<close> is the thrown \<open>SyntaxError\<close>.  A string literal is read in two
  passes: \<open>string_pieces\<close> splits it into copied bytes and \<open>\uXXXX\<close> code units up to the
  closing quotation mark, \<open>encode_pieces\<close> turns the code units into UTF-8, a surrogate
  pair into one code point and a lone surrogate into U+FFFD.
\<close>

definition is_ws :: "char \<Rightarrow> bool" where
  "is_ws c = (c = CHR 0x20 \<or> c = CHR 0x09 \<or> c = CHR 0x0A \<or> c = CHR 0x0D)"

definition skip_ws :: "string \<Rightarrow> string" where
  "skip_ws = dropWhile is_ws"

definition is_digit :: "char \<Rightarrow> bool" where
  "is_digit c = (48 \<le> (of_char c :: nat) \<and> (of_char c :: nat) \<le> 57)"

definition hex_value :: "char \<Rightarrow> nat option" where
  "hex_value c =
     (let n = of_char c :: nat
      in if 48 \<le> n \<and> n \<le> 57 then Some (n - 48)
         else if 97 \<le> n \<and> n \<le> 102 then Some (n - 87)
         else if 65 \<le> n \<and> n \<le> 70 then Some (n - 55)
         else None)"

definition simple_escape :: "char \<Rightarrow> char option" where
  "simple_escape e =
     (if e = CHR 0x22 then Some (CHR 0x22)
      else if e = CHR 0x5C then Some (CHR 0x5C)
      else if e = CHR ''/'' then Some (CHR ''/'')
      else if e = CHR ''b'' then Some (CHR 0x08)
      else if e = CHR ''f'' then Some (CHR 0x0C)
      else if e = CHR ''n'' then Some (CHR 0x0A)
      else if e = CHR ''r'' then Some (CHR 0x0D)
      else if e = CHR ''t'' then Some (CHR 0x09)
      else None)"

datatype piece = Raw char | Unit nat

fun string_pieces :: "string \<Rightarrow> (piece list \<times> string) option" where
  "string_pieces [] = None"
| "string_pieces (c # cs) =
     (if c = CHR 0x22 then Some ([], cs)
      else if c = CHR 0x5C then
        (case cs of
           [] \<Rightarrow> None
         | e # cs1 \<Rightarrow>
             if e = CHR ''u'' then
               (case cs1 of
                  h1 # h2 # h3 # h4 # cs2 \<Rightarrow>
                    (case (hex_value h1, hex_value h2, hex_value h3, hex_value h4) of
                       (Some a, Some b, Some c, Some d) \<Rightarrow>
                         (case string_pieces cs2 of
                            None \<Rightarrow> None
                          | Some (ps, rest) \<Rightarrow> Some (Unit (((a * 16 + b) * 16 + c) * 16 + d) # ps, rest))
                     | _ \<Rightarrow> None)
                | _ \<Rightarrow> None)
             else
               (case simple_escape e of
                  None \<Rightarrow> None
                | Some ch \<Rightarrow>
                    (case string_pieces cs1 of
                       None \<Rightarrow> None
                     | Some (ps, rest) \<Rightarrow> Some (Raw ch # ps, rest))))
      else if (of_char c :: nat) < 32 then None
      else (case string_pieces cs of
              None \<Rightarrow> None
            | Some (ps, rest) \<Rightarrow> Some (Raw c # ps, rest)))"

definition utf8 :: "nat \<Rightarrow> string" where
  "utf8 cp =
     (if cp < 0x80 then [char_of cp]
      else if cp < 0x800 then [char_of (0xC0 + cp div 64), char_of (0x80 + cp mod 64)]
      else if cp < 0x10000 then
        [char_of (0xE0 + cp div 4096), char_of (0x80 + cp div 64 mod 64), char_of (0x80 + cp mod 64)]
      else
        [char_of (0xF0 + cp div 262144), char_of (0x80 + cp div 4096 mod 64),
         char_of (0x80 + cp div 64 mod 64), char_of (0x80 + cp mod 64)])"

definition high_surrogate :: "nat \<Rightarrow> bool" where
  "high_surrogate u = (0xD800 \<le> u \<and> u \<le> 0xDBFF)"

definition low_surrogate :: "nat \<Rightarrow> bool" where
  "low_surrogate u = (0xDC00 \<le> u \<and> u \<le> 0xDFFF)"

fun encode_pieces :: "piece list \<Rightarrow> string" where
  "encode_pieces [] = []"
| "encode_pieces (Raw c # ps) = c # encode_pieces ps"
| "encode_pieces (Unit hi # Unit lo # ps) =
     (if high_surrogate hi \<and> low_surrogate lo
      then utf8 (0x10000 + (hi - 0xD800) * 0x400 + (lo - 0xDC00)) @ encode_pieces ps
      else (if high_surrogate hi \<or> low_surrogate hi then utf8 0xFFFD else utf8 hi)
           @ encode_pieces (Unit lo # ps))"
| "encode_pieces (Unit u # ps) =
     (if high_surrogate u \<or> low_surrogate u then utf8 0xFFFD else utf8 u) @ encode_pieces ps"

definition parse_string :: "string \<Rightarrow> (string \<times> string) option" where
  "parse_string cs =
     (case string_pieces cs of None \<Rightarrow> None | Some (ps, rest) \<Rightarrow> Some (encode_pieces ps, rest))"

text \<open>
  A number token, \<open>-? (0 | [1-9][0-9]*) (. [0-9]+)? ([eE] [+-]? [0-9]+)?\<close>.  Its value is
  never inspected; the token text is kept.
\<close>

definition parse_number :: "string \<Rightarrow> (json \<times> string) option" where
  "parse_number cs =
     (let sign = takeWhile (\<lambda>c. c = CHR ''-'') (take 1 cs);
          r0 = drop (length sign) cs;
          intpart = (if take 1 r0 = ''0'' then ''0'' else takeWhile is_digit r0);
          r1 = drop (length intpart) r0;
          fracdigits = (if take 1 r1 = ''.'' then takeWhile is_digit (drop 1 r1) else []);
          frac = (if take 1 r1 = ''.'' then CHR ''.'' # fracdigits else []);
          r2 = drop (length frac) r1;
          hasexp = (take 1 r2 = ''e'' \<or> take 1 r2 = ''E'');
          expsign = (if hasexp then takeWhile (\<lambda>c. c = CHR ''+'' \<or> c = CHR ''-'') (take 1 (drop 1 r2)) else []);
          expdigits = (if hasexp then takeWhile is_digit (drop (1 + length expsign) r2) else []);
          ex = (if hasexp then take 1 r2 @ expsign @ expdigits else []);
          r3 = drop (length ex) r2
      in if intpart = [] then None
         else if take 1 r1 = ''.'' \<and> fracdigits = [] then None
         else if hasexp \<and> expdigits = [] then None
         else Some (JNumber (sign @ intpart @ frac @ ex), r3))"

text \<open>
  Values, array elements and object members.  The first argument bounds the number of
  nested calls; \<open>JSON_parse\<close> starts with more than any text of that length can use.
\<close>

fun parse_value :: "nat \<Rightarrow> string \<Rightarrow> (json \<times> string) option"
and parse_elements :: "nat \<Rightarrow> string \<Rightarrow> json list \<Rightarrow> (json \<times> string) option"
and parse_members :: "nat \<Rightarrow> string \<Rightarrow> (string \<times> json) list \<Rightarrow> (json \<times> string) option" where
  "parse_value 0 cs = None"
| "parse_value (Suc fuel) cs =
     (case skip_ws cs of
        [] \<Rightarrow> None
      | c # r \<Rightarrow>
          if c = CHR 0x22 then
            (case parse_string r of None \<Rightarrow> None | Some (s, r1) \<Rightarrow> Some (JString s, r1))
          else if c = CHR ''{'' then
            (case skip_ws r of
               [] \<Rightarrow> None
             | c1 # r1 \<Rightarrow> if c1 = CHR ''}'' then Some (JObject [], r1) else parse_members fuel r [])
          else if c = CHR ''['' then
            (case skip_ws r of
               [] \<Rightarrow> None
             | c1 # r1 \<Rightarrow> if c1 = CHR '']'' then Some (JArray [], r1) else parse_elements fuel r [])
          else if take 4 (c # r) = ''true'' then Some (JBool True, drop 3 r)
          else if take 5 (c # r) = ''false'' then Some (JBool False, drop 4 r)
          else if take 4 (c # r) = ''null'' then Some (JNull, drop 3 r)
          else parse_number (c # r))"
| "parse_elements 0 cs acc = None"
| "parse_elements (Suc fuel) cs acc =
     (case parse_value fuel cs of
        None \<Rightarrow> None
      | Some (v, r) \<Rightarrow>
          (case skip_ws r of
             [] \<Rightarrow> None
           | c # r1 \<Rightarrow>
               if c = CHR '','' then parse_elements fuel r1 (acc @ [v])
               else if c = CHR '']'' then Some (JArray (acc @ [v]), r1)
               else None))"
| "parse_members 0 cs acc = None"
| "parse_members (Suc fuel) cs acc =
     (case skip_ws cs of
        [] \<Rightarrow> None
      | c # r \<Rightarrow>
          if c \<noteq> CHR 0x22 then None
          else
            (case parse_string r of
               None \<Rightarrow> None
             | Some (k, r1) \<Rightarrow>
                 (case skip_ws r1 of
                    [] \<Rightarrow> None
                  | c1 # r2 \<Rightarrow>
                      if c1 \<noteq> CHR '':'' then None
                      else
                        (case parse_value fuel r2 of
                           None \<Rightarrow> None
                         | Some (v, r3) \<Rightarrow>
                             (case skip_ws r3 of
                                [] \<Rightarrow> None
                              | c3 # r4 \<Rightarrow>
                                  if c3 = CHR '','' then parse_members fuel r4 (acc @ [(k, v)])
                                  else if c3 = CHR ''}'' then Some (JObject (acc @ [(k, v)]), r4)
                                  else None)))))"

definition JSON_parse :: "string \<Rightarrow> json option" where
  "JSON_parse text =
     (case parse_value (2 * length text + 2) text of
        None \<Rightarrow> None
      | Some (v, rest) \<Rightarrow> if skip_ws rest = [] then Some v else None)"

text \<open>
  Reading a property of a parsed value: an object yields its last member of that name,
  any other value but \<open>null\<close> yields \<open>undefined\<close> (\<open>None\<close>).  On \<open>null\<close> the access throws
  a \<open>TypeError\<close>; \<open>decodeCursor\<close> treats that case itself.
\<close>

fun property :: "json \<Rightarrow> string \<Rightarrow> json option" where
  "property (JObject members) k = map_of (rev members) k"
| "property v k = None"

subsection \<open>\<open>encodeCursor\<close> and \<open>decodeCursor\<close>\<close>

definition encodeCursor :: "string \<times> string \<Rightarrow> string" where
  "encodeCursor lastEvaluatedKey =
     (let cursorData = (fst lastEvaluatedKey, snd lastEvaluatedKey);
          json = JSON_stringify_CursorData cursorData
      in base64url_encode json)"

text \<open>
  The whole body of \<open>decodeCursor\<close> is inside \<open>try\<close>, and the \<open>catch\<close> returns \<open>undefined\<close>:
  the \<open>SyntaxError\<close> of \<open>JSON.parse\<close> and the \<open>TypeError\<close> of reading \<open>PK\<close> from \<open>null\<close> both
  end as \<open>None\<close>.
\<close>

definition decodeCursor :: "string \<Rightarrow> (string \<times> string) option" where
  "decodeCursor cursorText =
     (let json = base64url_decode cursorText
      in case JSON_parse json of
           None \<Rightarrow> None
         | Some JNull \<Rightarrow> None
         | Some cursorData \<Rightarrow>
             (case (property cursorData ''PK'', property cursorData ''SK'') of
                (Some (JString pk), Some (JString sk)) \<Rightarrow>
                  if \<not> startsWith pk ''CLINIC#'' \<or> \<not> startsWith sk ''NOTE#'' then None
                  else Some (pk, sk)
              | _ \<Rightarrow> None))"

section \<open>Queries and listing\<close>

text \<open>
  \<open>QueryCommand\<close> on one partition.  The key condition selects sort keys, compared
  byte by byte as DynamoDB compares strings; the matching items are read in sort-key
  order, ascending or (\<open>ScanIndexForward: false\<close>) descending, starting strictly after
  \<open>ExclusiveStartKey\<close>.  \<open>Limit\<close> bounds the number of items read, and the filter
  expression is applied to the items read, after the limit (the comment in
  \<open>findByIdWithoutStudyDate\<close> relies on this order).  A start key outside the partition or
  outside the key condition is rejected with \<open>ValidationException\<close>.  The 1 MB bound on
  one response is not modelled.
\<close>

datatype key_condition =
    SK_between string string
  | SK_at_least string
  | SK_begins_with string

fun key_matches :: "key_condition \<Rightarrow> string \<Rightarrow> bool" where
  "key_matches (SK_between lo hi) sk = (lo \<le> sk \<and> sk \<le> hi)"
| "key_matches (SK_at_least lo) sk = (lo \<le> sk)"
| "key_matches (SK_begins_with prefix) sk = startsWith sk prefix"

datatype filter_condition =
    filter_attribute_not_exists_deletedAt
  | filter_contains_tags string
  | filter_noteId_equals string

fun filter_holds :: "DynamoDBNoteItem \<Rightarrow> filter_condition \<Rightarrow> bool" where
  "filter_holds item filter_attribute_not_exists_deletedAt = (deletedAt item = None)"
| "filter_holds item (filter_contains_tags t) = (case tags item of None \<Rightarrow> False | Some ts \<Rightarrow> t \<in> set ts)"
| "filter_holds item (filter_noteId_equals n) = (noteId item = n)"

definition query_items ::
  "string \<Rightarrow> key_condition \<Rightarrow> filter_condition list \<Rightarrow> nat option \<Rightarrow> (string \<times> string) option
     \<Rightarrow> bool \<Rightarrow> DynamoDBNoteItem list \<Rightarrow> DynamoDBNoteItem list" where
  "query_items pk keyCondition filters lim exclusiveStartKey scanIndexForward tbl =
     (let matching = filter (\<lambda>it. PK it = pk \<and> key_matches keyCondition (SK it)) tbl;
          ascending = sort_key SK matching;
          ordered = (if scanIndexForward then ascending else rev ascending);
          remaining = (case exclusiveStartKey of
                         None \<Rightarrow> ordered
                       | Some (startPK, startSK) \<Rightarrow>
                           filter (\<lambda>it. if scanIndexForward then startSK < SK it
                                        else SK it < startSK) ordered);
          evaluated = (case lim of None \<Rightarrow> remaining | Some n \<Rightarrow> take n remaining)
      in filter (\<lambda>it. list_all (filter_holds it) filters) evaluated)"

definition send_QueryCommand ::
  "string \<Rightarrow> key_condition \<Rightarrow> filter_condition list \<Rightarrow> nat option \<Rightarrow> (string \<times> string) option
     \<Rightarrow> bool \<Rightarrow> world \<Rightarrow> (error + DynamoDBNoteItem list) \<times> world" where
  "send_QueryCommand pk keyCondition filters lim exclusiveStartKey scanIndexForward w =
     (case take_fault w of
        (Some e, w') \<Rightarrow> (Inl e, w')
      | (None, w') \<Rightarrow>
          (case exclusiveStartKey of
             None \<Rightarrow>
               (Inr (query_items pk keyCondition filters lim exclusiveStartKey scanIndexForward
                       (world.items w')), w')
           | Some (startPK, startSK) \<Rightarrow>
               if startPK \<noteq> pk \<or> \<not> key_matches keyCondition startSK
               then (Inl ValidationException, w')
               else (Inr (query_items pk keyCondition filters lim exclusiveStartKey scanIndexForward
                            (world.items w')), w')))"

definition findByIdWithoutStudyDate ::
  "string \<Rightarrow> string \<Rightarrow> string \<Rightarrow> world \<Rightarrow> (error + Note option) \<times> world" where
  "findByIdWithoutStudyDate clinic patient note w =
     (let pk = buildPK clinic patient
      in case send_QueryCommand pk (SK_begins_with ''NOTE#'')
                [filter_noteId_equals note, filter_attribute_not_exists_deletedAt] None None True w of
           (Inl err, w1) \<Rightarrow> (Inl err, w1)
         | (Inr result, w1) \<Rightarrow>
             (case result of
                [] \<Rightarrow> (Inr None, w1)
              | first # others \<Rightarrow> (Inr (Some (itemToNote first)), w1)))"

text \<open>
  \<open>list\<close>.  The page size is a natural number; the repository asks the store for one
  item more.  An option is used when it is truthy, as the source tests it.
\<close>

definition list_keyCondition :: "ListNotesOptions \<Rightarrow> key_condition" where
  "list_keyCondition options =
     (if truthy (studyDateFrom options) \<and> truthy (studyDateTo options) then
        SK_between (''NOTE#'' @ the (studyDateFrom options)) (''NOTE#'' @ the (studyDateTo options) @ ''~'')
      else if truthy (studyDateFrom options) then
        SK_at_least (''NOTE#'' @ the (studyDateFrom options))
      else if truthy (studyDateTo options) then
        SK_between ''NOTE#'' (''NOTE#'' @ the (studyDateTo options) @ ''~'')
      else SK_begins_with ''NOTE#'')"

definition list_filterConditions :: "ListNotesOptions \<Rightarrow> filter_condition list" where
  "list_filterConditions options =
     [filter_attribute_not_exists_deletedAt]
     @ (if truthy (tag options) then [filter_contains_tags (the (tag options))] else [])"

definition list_notes ::
  "string \<Rightarrow> string \<Rightarrow> ListNotesOptions \<Rightarrow> world \<Rightarrow> (error + PaginatedResponse) \<times> world" where
  "list_notes clinic patient options w =
     (let pk = buildPK clinic patient;
          keyCondition = list_keyCondition options;
          filterConditions = list_filterConditions options;
          exclusiveStartKey = (if truthy (cursor options) then decodeCursor (the (cursor options)) else None)
      in case send_QueryCommand pk keyCondition filterConditions (Some (ListNotesOptions.limit options + 1))
                exclusiveStartKey False w of
           (Inl err, w1) \<Rightarrow> (Inl err, w1)
         | (Inr result, w1) \<Rightarrow>
             (let more = (length result > ListNotesOptions.limit options);
                  kept = (if more then butlast result else result);
                  next = (if more \<and> length kept > 0
                          then Some (encodeCursor (PK (last kept), SK (last kept)))
                          else None)
              in (Inr \<lparr>PaginatedResponse.items = map itemToNote kept, nextCursor = next, hasMore = more\<rparr>, w1)))"

text \<open>Options of a plain listing in pages of two, with or without a cursor.\<close>

definition pages_of_two :: "string option \<Rightarrow> ListNotesOptions" where
  "pages_of_two c =
     \<lparr>cursor = c, ListNotesOptions.limit = 2, studyDateFrom = None, studyDateTo = None, tag = None\<rparr>"

text \<open>The note items of a partition, most recent sort key first.\<close>

definition partition_notes_descending :: "string \<Rightarrow> world \<Rightarrow> DynamoDBNoteItem list" where
  "partition_notes_descending pk w =
     rev (sort_key SK (filter (\<lambda>it. PK it = pk \<and> startsWith (SK it) ''NOTE#'') (world.items w)))"

text \<open>A partition with five live notes, created out of study-date order.\<close>

definition note_input :: "string \<Rightarrow> string \<Rightarrow> CreateNoteInput" where
  "note_input d t = \<lparr> CreateNoteInput.studyDate = d, CreateNoteInput.title = t,
      CreateNoteInput.content = ''Content'', CreateNoteInput.noteType = None,
      CreateNoteInput.tags = None, CreateNoteInput.attachments = None \<rparr>"

definition five_notes_world :: world where
  "five_notes_world =
     snd (create ''clinic-a'' ''p1'' ''u1'' ''Dr. U'' ''n5'' ''2024-01-15T10:00:00.000Z'' (note_input ''2024-01-03'' ''five'')
    (snd (create ''clinic-a'' ''p1'' ''u1'' ''Dr. U'' ''n4'' ''2024-01-15T10:00:00.000Z'' (note_input ''2024-01-05'' ''four'')
    (snd (create ''clinic-a'' ''p1'' ''u1'' ''Dr. U'' ''n3'' ''2024-01-15T10:00:00.000Z'' (note_input ''2024-01-01'' ''three'')
    (snd (create ''clinic-a'' ''p1'' ''u1'' ''Dr. U'' ''n2'' ''2024-01-15T10:00:00.000Z'' (note_input ''2024-01-04'' ''two'')
    (snd (create ''clinic-a'' ''p1'' ''u1'' ''Dr. U'' ''n1'' ''2024-01-15T10:00:00.000Z'' (note_input ''2024-01-02'' ''one'')
       world0)))))))))"


section \<open>The store: lookup, replacement and frame lemmas\<close>

lemma take_fault_items [simp]: "items (snd (take_fault w)) = items w"
  by (simp add: take_fault_def split: list.splits)

lemma take_fault_cases:
  obtains (fault) e w' where "take_fault w = (Some e, w')" "items w' = items w" "windows w' = windows w" "logs w' = logs w"
  | (pass) w' where "take_fault w = (None, w')" "items w' = items w" "windows w' = windows w" "logs w' = logs w"
  by (cases "faults w"; cases "hd (faults w)"; auto simp: take_fault_def)

lemma PK_apply_clause [simp]: "PK (apply_clause it c) = PK it" "SK (apply_clause it c) = SK it"
  by (cases c; simp)+

lemma PK_foldl_apply [simp]: "PK (foldl apply_clause it cs) = PK it \<and> SK (foldl apply_clause it cs) = SK it"
  by (induction cs arbitrary: it) auto

lemma lookup_item_key: "lookup_item k tbl = Some it \<Longrightarrow> (PK it, SK it) = k"
  unfolding lookup_item_def by (induction tbl) (auto split: if_splits)

lemma lookup_replace_item:
  "(PK new, SK new) = k \<Longrightarrow> lookup_item k tbl = Some it \<Longrightarrow> lookup_item k (replace_item k new tbl) = Some new"
  unfolding lookup_item_def replace_item_def by (induction tbl) (auto split: if_splits)

lemma lookup_replace_item_other:
  "(PK new, SK new) = k \<Longrightarrow> k' \<noteq> k \<Longrightarrow> lookup_item k' (replace_item k new tbl) = lookup_item k' tbl"
  unfolding lookup_item_def replace_item_def by (induction tbl) (auto split: if_splits)

lemma lookup_append_new:
  "lookup_item (PK it, SK it) tbl = None \<Longrightarrow> lookup_item (PK it, SK it) (tbl @ [it]) = Some it"
  unfolding lookup_item_def by (induction tbl) (auto split: if_splits)

lemma send_UpdateCommand_Inr:
  assumes "send_UpdateCommand k cls conds w = (Inr r, w')"
  shows "\<exists>it. lookup_item k (items w) = Some it \<and> list_all (holds (Some it)) conds
            \<and> r = Some (foldl apply_clause it cls)
            \<and> items w' = replace_item k (foldl apply_clause it cls) (items w)
            \<and> windows w' = windows w \<and> logs w' = logs w"
  using assms unfolding send_UpdateCommand_def
  by (cases w rule: take_fault_cases) (auto simp: Let_def split: if_splits option.splits)

lemma send_UpdateCommand_Inl:
  assumes "send_UpdateCommand k cls conds w = (Inl e, w')"
  shows "items w' = items w \<and> windows w' = windows w \<and> logs w' = logs w"
  using assms unfolding send_UpdateCommand_def
  by (cases w rule: take_fault_cases) (auto simp: Let_def split: if_splits option.splits)

lemma send_GetCommand_frame:
  assumes "send_GetCommand k w = (r, w')"
  shows "items w' = items w \<and> windows w' = windows w \<and> logs w' = logs w"
  using assms unfolding send_GetCommand_def
  by (cases w rule: take_fault_cases) (auto simp: Let_def split: if_splits option.splits)

lemma findById_frame:
  assumes "findById c p n d w = (r, w')"
  shows "items w' = items w \<and> windows w' = windows w \<and> logs w' = logs w"
proof -
  obtain r0 w0 where g: "send_GetCommand (buildPK c p, buildSK d n) w = (r0, w0)" by force
  from send_GetCommand_frame[OF g] assms g show ?thesis
    by (auto simp: findById_def Let_def split: sum.splits option.splits if_splits)
qed

lemma logger_frame [simp]: "items (logger l m w) = items w" "windows (logger l m w) = windows w" "faults (logger l m w) = faults w"
  by (simp_all add: logger_def)

lemma update_Inl_items:
  assumes "update c p n d u un now inp w = (Inl e, w')"
  shows "items w' = items w"
proof -
  obtain r1 w1 where t: "update_try c p n d u un now inp w = (r1, w1)" by force
  obtain r0 w0 where s: "send_UpdateCommand (buildPK c p, buildSK d n) (updateExpressions now u un inp)
                [attribute_exists_PK, attribute_not_exists_deletedAt,
                 version_equals (UpdateNoteInput.version inp)] w = (r0, w0)" by force
  show ?thesis
  proof (cases r0)
    case (Inl e0)
    with s have "items w0 = items w" using send_UpdateCommand_Inl by blast
    moreover from t s Inl have "r1 = Inl e0" "w1 = w0" by (auto simp: update_try_def Let_def)
    moreover obtain r2 w2 where f: "findById c p n d w1 = (r2, w2)" by force
    moreover from findById_frame[OF f] have "items w2 = items w1" by simp
    ultimately show ?thesis using assms t
      by (auto simp: update_def split: if_splits sum.splits option.splits)
  next
    case (Inr a)
    with s obtain it where "a = Some (foldl apply_clause it (updateExpressions now u un inp))"
      using send_UpdateCommand_Inr by blast
    with t s Inr have "\<exists>x. r1 = Inr x" by (auto simp: update_try_def Let_def)
    with assms t show ?thesis by (auto simp: update_def)
  qed
qed

lemma version_updateExpressions:
  "version (foldl apply_clause it (updateExpressions now u un inp)) = version it + 1"
  by (simp add: updateExpressions_def split: option.splits)

lemma update_Inr:
  assumes "update c p n d u un now inp w = (Inr note, w')"
  shows "\<exists>it. lookup_item (buildPK c p, buildSK d n) (items w) = Some it
            \<and> deletedAt it = None \<and> version it = UpdateNoteInput.version inp
            \<and> items w' = replace_item (buildPK c p, buildSK d n)
                            (foldl apply_clause it (updateExpressions now u un inp)) (items w)
            \<and> note = itemToNote (foldl apply_clause it (updateExpressions now u un inp))"
proof -
  let ?k = "(buildPK c p, buildSK d n)"
  obtain r0 w0 where s: "send_UpdateCommand ?k (updateExpressions now u un inp)
                [attribute_exists_PK, attribute_not_exists_deletedAt,
                 version_equals (UpdateNoteInput.version inp)] w = (r0, w0)" by force
  obtain r1 w1 where t: "update_try c p n d u un now inp w = (r1, w1)" by force
  from assms t have r1: "r1 = Inr note" "w1 = w'"
    by (auto simp: update_def split: sum.splits if_splits option.splits prod.splits)
  from t s r1 obtain a where a: "r0 = Inr (Some a)" "note = itemToNote a" "w' = logger INFO ''Note updated'' w0"
    by (auto simp: update_try_def Let_def split: sum.splits option.splits)
  from send_UpdateCommand_Inr[OF s[unfolded a(1)]] a show ?thesis by auto
qed

lemma lookup_append_new':
  "lookup_item k tbl = None \<Longrightarrow> (PK it, SK it) = k \<Longrightarrow> lookup_item k (tbl @ [it]) = Some it"
  using lookup_append_new by blast

lemma create_Inr:
  assumes "create c p u un uuid now inp w = (Inr note, w')"
  shows "\<exists>it. lookup_item (buildPK c p, buildSK (CreateNoteInput.studyDate inp) uuid) (items w') = Some it
           \<and> version it = 1 \<and> deletedAt it = None \<and> note = itemToNote it
           \<and> lookup_item (buildPK c p, buildSK (CreateNoteInput.studyDate inp) uuid) (items w) = None
           \<and> items w' = items w @ [it]"
  using assms unfolding create_def send_PutCommand_def
  by (cases w rule: take_fault_cases)
     (auto simp: Let_def lookup_append_new' split: option.splits)

section \<open>Versions\<close>

lemma succeeded_simps [simp]:
  "succeeded [] = 0"
  "succeeded (Inl e # rs) = succeeded rs"
  "succeeded (Inr x # rs) = Suc (succeeded rs)"
  by (simp_all add: succeeded_def)

lemma update_step:
  assumes "lookup_item (buildPK c p, buildSK d n) (items w) = Some it"
      and "update c p n d u un now inp w = (r, w1)"
  shows "case r of
           Inl e \<Rightarrow> items w1 = items w
         | Inr note \<Rightarrow> version note = version it + 1 \<and>
             (\<exists>it1. lookup_item (buildPK c p, buildSK d n) (items w1) = Some it1 \<and> version it1 = version it + 1)"
proof (cases r)
  case (Inl e)
  with assms(2) update_Inl_items show ?thesis by auto
next
  case (Inr nt)
  let ?k = "(buildPK c p, buildSK d n)"
  let ?new = "foldl apply_clause it (updateExpressions now u un inp)"
  from update_Inr[OF assms(2)[unfolded Inr]] assms(1)
  have i: "items w1 = replace_item ?k ?new (items w)" and n: "nt = itemToNote ?new" by auto
  have k: "(PK ?new, SK ?new) = ?k" using lookup_item_key[OF assms(1)] by simp
  have "lookup_item ?k (items w1) = Some ?new"
    unfolding i by (rule lookup_replace_item[OF k assms(1)])
  moreover have "version nt = version it + 1"
    unfolding n by (simp add: itemToNote_def version_updateExpressions)
  ultimately show ?thesis using Inr by (simp add: version_updateExpressions)
qed

lemma run_updates_versions:
  assumes "lookup_item (buildPK c p, buildSK d n) (items w) = Some it"
      and "run_updates c p n d calls w = (rs, w')"
  shows "(\<exists>it'. lookup_item (buildPK c p, buildSK d n) (items w') = Some it'
              \<and> version it' = version it + int (succeeded rs))
       \<and> (\<forall>i<length rs. \<forall>note. rs ! i = Inr note \<longrightarrow>
              version note = version it + int (succeeded (take (Suc i) rs)))"
  using assms
proof (induction calls arbitrary: w it rs w')
  case Nil
  then show ?case by simp
next
  case (Cons call calls)
  obtain u un now inp where call: "call = (u, un, now, inp)" by (cases call) auto
  obtain r w1 where u: "update c p n d u un now inp w = (r, w1)" by force
  obtain rs1 w2 where r: "run_updates c p n d calls w1 = (rs1, w2)" by force
  from Cons.prems(2) call u r have rs: "rs = r # rs1" and w': "w' = w2" by auto
  note step = update_step[OF Cons.prems(1) u]
  show ?case
  proof (cases r)
    case (Inl e)
    with step Cons.prems(1) have l: "lookup_item (buildPK c p, buildSK d n) (items w1) = Some it" by simp
    from Cons.IH[OF l r] show ?thesis unfolding rs w' Inl
      by (auto simp: nth_Cons split: nat.splits)
  next
    case (Inr nt)
    with step obtain it1 where l: "lookup_item (buildPK c p, buildSK d n) (items w1) = Some it1"
      and v: "version it1 = version it + 1" "version nt = version it + 1" by auto
    from Cons.IH[OF l r] show ?thesis unfolding rs w' Inr using v
      by (auto simp: nth_Cons split: nat.splits)
  qed
qed

text \<open>
  C2.  \<open>create\<close> stores and returns the note at version 1.  In any sequence of \<open>update\<close>
  calls on that note, the \<open>k\<close>-th successful call returns version \<open>1 + k\<close>, and after the
  whole sequence the stored version is 1 plus the number of successful calls; the failed
  calls in between, whatever their cause, do not count.  A failed \<open>update\<close> leaves
  every stored item as it was.
\<close>

theorem version_counts_successful_updates:
  assumes "create c p u un uuid now inp w = (Inr note, w1)"
      and "run_updates c p uuid (CreateNoteInput.studyDate inp) calls w1 = (rs, w2)"
  shows "version note = 1
       \<and> (\<exists>it. lookup_item (buildPK c p, buildSK (CreateNoteInput.studyDate inp) uuid) (items w1) = Some it
              \<and> version it = 1)
       \<and> (\<exists>it. lookup_item (buildPK c p, buildSK (CreateNoteInput.studyDate inp) uuid) (items w2) = Some it
              \<and> version it = 1 + int (succeeded rs))
       \<and> (\<forall>i<length rs. \<forall>note'. rs ! i = Inr note' \<longrightarrow>
              version note' = 1 + int (succeeded (take (Suc i) rs)))
       \<and> (\<forall>c' p' n' d' u' un' now' inp' wa e wb.
              update c' p' n' d' u' un' now' inp' wa = (Inl e, wb) \<longrightarrow> items wb = items wa)"
proof -
  from create_Inr[OF assms(1)] obtain it where
    it: "lookup_item (buildPK c p, buildSK (CreateNoteInput.studyDate inp) uuid) (items w1) = Some it"
        "version it = 1" "note = itemToNote it" by auto
  from run_updates_versions[OF it(1) assms(2)] it(2)
  have "(\<exists>it'. lookup_item (buildPK c p, buildSK (CreateNoteInput.studyDate inp) uuid) (items w2) = Some it'
              \<and> version it' = 1 + int (succeeded rs))"
   and "(\<forall>i<length rs. \<forall>note. rs ! i = Inr note \<longrightarrow>
              version note = 1 + int (succeeded (take (Suc i) rs)))" by auto
  moreover have "version note = 1" using it by (simp add: itemToNote_def)
  ultimately show ?thesis using it update_Inl_items by blast
qed

theorem version_counts_successful_updates_witness:
  "\<exists>nt w1 rs w2.
     create ''clinic-a'' ''p1'' ''u1'' ''Dr. U'' ''n1'' ''2024-01-15T10:00:00.000Z'' input0 world0 = (Inr nt, w1)
   \<and> run_updates ''clinic-a'' ''p1'' ''n1'' (CreateNoteInput.studyDate input0)
         [(''u2'', ''Dr. V'', ''2024-01-16T10:00:00.000Z'', retitle 1 ''A''),
          (''u3'', ''Dr. W'', ''2024-01-17T10:00:00.000Z'', retitle 1 ''B''),
          (''u2'', ''Dr. V'', ''2024-01-18T10:00:00.000Z'', retitle 2 ''C'')] w1 = (rs, w2)
   \<and> version nt = 1
   \<and> (\<exists>it. lookup_item (buildPK ''clinic-a'' ''p1'', buildSK (CreateNoteInput.studyDate input0) ''n1'') (items w2) = Some it
          \<and> version it = 1 + int (succeeded rs))"
proof -
  obtain nt w1 where h1:
    "create ''clinic-a'' ''p1'' ''u1'' ''Dr. U'' ''n1'' ''2024-01-15T10:00:00.000Z'' input0 world0 = (Inr nt, w1)"
    by (simp add: create_def send_PutCommand_def take_fault_def world0_def lookup_item_def Let_def)
  obtain rs w2 where h2:
    "run_updates ''clinic-a'' ''p1'' ''n1'' (CreateNoteInput.studyDate input0)
         [(''u2'', ''Dr. V'', ''2024-01-16T10:00:00.000Z'', retitle 1 ''A''),
          (''u3'', ''Dr. W'', ''2024-01-17T10:00:00.000Z'', retitle 1 ''B''),
          (''u2'', ''Dr. V'', ''2024-01-18T10:00:00.000Z'', retitle 2 ''C'')] w1 = (rs, w2)"
    by force
  from version_counts_successful_updates[OF h1 h2] h1 h2 show ?thesis by blast
qed

section \<open>Soft delete: what is written\<close>

lemma take_fault_none: "faults w = [] \<Longrightarrow> take_fault w = (None, w)"
  by (simp add: take_fault_def)

lemma softDelete_active:
  assumes "faults w = []"
      and "lookup_item (buildPK c p, buildSK d n) (items w) = Some it"
      and "deletedAt it = None"
  shows "softDelete c p n d u now w =
           (Inr (), logger INFO ''Note soft deleted''
                      (w\<lparr>items := replace_item (buildPK c p, buildSK d n)
                                      (it\<lparr>deletedAt := Some now, deletedBy := Some u\<rparr>) (items w)\<rparr>))"
  using assms
  by (simp add: softDelete_def softDelete_try_def send_UpdateCommand_def take_fault_none Let_def)

text \<open>
  C10.  On an active note, with the store answering, \<open>softDelete\<close> succeeds and the stored
  item afterwards is the old item with \<open>deletedAt\<close> and \<open>deletedBy\<close> set and nothing else
  changed: \<open>version\<close> is not incremented, and \<open>title\<close>, \<open>content\<close>, \<open>attachments\<close>,
  \<open>studyDate\<close>, \<open>updatedAt\<close> and \<open>updatedBy\<close> keep their values.  Items under other keys
  are not touched.
\<close>

theorem softDelete_writes_only_deletedAt_deletedBy:
  assumes "faults w = []"
      and "lookup_item (buildPK c p, buildSK d n) (items w) = Some it"
      and "deletedAt it = None"
  shows "\<exists>w' it'. softDelete c p n d u now w = (Inr (), w')
           \<and> lookup_item (buildPK c p, buildSK d n) (items w') = Some it'
           \<and> it' = it\<lparr>deletedAt := Some now, deletedBy := Some u\<rparr>
           \<and> version it' = version it \<and> title it' = title it \<and> content it' = content it
           \<and> attachments it' = attachments it \<and> studyDate it' = studyDate it
           \<and> updatedAt it' = updatedAt it \<and> updatedBy it' = updatedBy it
           \<and> (\<forall>k. k \<noteq> (buildPK c p, buildSK d n) \<longrightarrow> lookup_item k (items w') = lookup_item k (items w))"
proof -
  let ?k = "(buildPK c p, buildSK d n)"
  let ?it' = "it\<lparr>deletedAt := Some now, deletedBy := Some u\<rparr>"
  have k: "(PK ?it', SK ?it') = ?k" using lookup_item_key[OF assms(2)] by simp
  have "lookup_item ?k (replace_item ?k ?it' (items w)) = Some ?it'"
    by (rule lookup_replace_item[OF k assms(2)])
  moreover have "\<forall>k'. k' \<noteq> ?k \<longrightarrow> lookup_item k' (replace_item ?k ?it' (items w)) = lookup_item k' (items w)"
    using lookup_replace_item_other[OF k] by blast
  ultimately show ?thesis
    unfolding softDelete_active[OF assms] by simp
qed

theorem softDelete_writes_only_deletedAt_deletedBy_witness:
  "\<exists>nt w1 it. create ''clinic-a'' ''p1'' ''u1'' ''Dr. U'' ''n1'' ''2024-01-15T10:00:00.000Z'' input0 world0 = (Inr nt, w1)
     \<and> faults w1 = []
     \<and> lookup_item (buildPK ''clinic-a'' ''p1'', buildSK ''2024-01-15'' ''n1'') (items w1) = Some it
     \<and> deletedAt it = None
     \<and> (\<exists>w' it'. softDelete ''clinic-a'' ''p1'' ''n1'' ''2024-01-15'' ''u9'' ''2024-02-01T08:00:00.000Z'' w1 = (Inr (), w')
           \<and> lookup_item (buildPK ''clinic-a'' ''p1'', buildSK ''2024-01-15'' ''n1'') (items w') = Some it'
           \<and> deletedAt it' = Some ''2024-02-01T08:00:00.000Z'' \<and> deletedBy it' = Some ''u9''
           \<and> version it' = 1 \<and> title it' = ''Title'')"
proof -
  obtain nt w1 where h1:
    "create ''clinic-a'' ''p1'' ''u1'' ''Dr. U'' ''n1'' ''2024-01-15T10:00:00.000Z'' input0 world0 = (Inr nt, w1)"
    by (simp add: create_def send_PutCommand_def take_fault_def world0_def lookup_item_def Let_def)
  then have f: "faults w1 = []"
    by (auto simp: create_def send_PutCommand_def take_fault_def world0_def lookup_item_def Let_def logger_def)
  from create_Inr[OF h1] obtain it where
    it: "lookup_item (buildPK ''clinic-a'' ''p1'', buildSK ''2024-01-15'' ''n1'') (items w1) = Some it"
        "deletedAt it = None" "version it = 1" "nt = itemToNote it"
    by (auto simp: input0_def)
  from h1 have "title nt = ''Title''"
    by (auto simp: create_def send_PutCommand_def take_fault_def world0_def lookup_item_def Let_def itemToNote_def input0_def)
  with it have t: "title it = ''Title''" by (simp add: itemToNote_def)
  from softDelete_writes_only_deletedAt_deletedBy[OF f it(1) it(2), of "''u9''" "''2024-02-01T08:00:00.000Z''"]
  show ?thesis using h1 f it t by auto
qed

section \<open>Update: stale versions and the fields written\<close>

lemma findById_available:
  "faults w = [] \<Longrightarrow>
   findById c p n d w =
     (Inr (case lookup_item (buildPK c p, buildSK d n) (items w) of
             None \<Rightarrow> None
           | Some it \<Rightarrow> if truthy (deletedAt it) then None else Some (itemToNote it)), w)"
  by (simp add: findById_def send_GetCommand_def take_fault_none Let_def split: option.splits)

lemma update_try_condition_fails:
  assumes "faults w = []"
      and "\<forall>it. lookup_item (buildPK c p, buildSK d n) (items w) = Some it
              \<longrightarrow> version it \<noteq> UpdateNoteInput.version inp"
  shows "update_try c p n d u un now inp w = (Inl ConditionalCheckFailedException, w)"
  using assms
  by (cases "lookup_item (buildPK c p, buildSK d n) (items w)")
     (simp_all add: update_try_def send_UpdateCommand_def take_fault_none Let_def)

text \<open>
  C1.  With the store answering, an \<open>update\<close> whose expected version is not the stored
  version of the addressed note (or that addresses no stored note) writes nothing and
  fails.  The error is decided by the re-read through \<open>findById\<close>: \<open>NotFoundError\<close> when
  the re-read finds nothing (no item, or a soft-deleted one), and otherwise
  \<open>ConflictError\<close> whose message names the expected version and the version the re-read
  returned, which is the stored one.
\<close>

theorem update_stale_version_conflict:
  assumes "faults w = []"
      and "\<forall>it. lookup_item (buildPK c p, buildSK d n) (items w) = Some it
              \<longrightarrow> version it \<noteq> UpdateNoteInput.version inp"
  shows "\<exists>w' reread.
           fst (findById c p n d w) = Inr reread
         \<and> update c p n d u un now inp w =
             (Inl (case reread of
                     None \<Rightarrow> NotFoundError ''Note'' n
                   | Some existing \<Rightarrow>
                       ConflictError (conflict_message (UpdateNoteInput.version inp) (version existing))), w')
         \<and> items w' = items w
         \<and> reread = (case lookup_item (buildPK c p, buildSK d n) (items w) of
                        None \<Rightarrow> None
                      | Some it \<Rightarrow> if truthy (deletedAt it) then None else Some (itemToNote it))
         \<and> (\<forall>existing. reread = Some existing \<longrightarrow>
               (\<exists>it. lookup_item (buildPK c p, buildSK d n) (items w) = Some it
                     \<and> version existing = version it))"
proof -
  have "error_name ConditionalCheckFailedException = ''ConditionalCheckFailedException''"
    by (simp add: ConditionalCheckFailedException_def)
  then show ?thesis
    by (auto simp: update_def update_try_condition_fails[OF assms] findById_available[OF assms(1)]
          itemToNote_def split: option.splits)
qed

theorem update_stale_version_conflict_witness:
  "\<exists>nt w1. create ''clinic-a'' ''p1'' ''u1'' ''Dr. U'' ''n1'' ''2024-01-15T10:00:00.000Z'' input0 world0 = (Inr nt, w1)
     \<and> faults w1 = []
     \<and> (\<forall>it. lookup_item (buildPK ''clinic-a'' ''p1'', buildSK ''2024-01-15'' ''n1'') (items w1) = Some it
              \<longrightarrow> version it \<noteq> UpdateNoteInput.version (retitle 7 ''New''))
     \<and> (\<exists>w'. update ''clinic-a'' ''p1'' ''n1'' ''2024-01-15'' ''u2'' ''Dr. V'' ''2024-01-16T10:00:00.000Z''
                 (retitle 7 ''New'') w1
               = (Inl (ConflictError ''Version conflict: expected 7, current is 1''), w')
             \<and> items w' = items w1)"
proof -
  obtain nt w1 where h1:
    "create ''clinic-a'' ''p1'' ''u1'' ''Dr. U'' ''n1'' ''2024-01-15T10:00:00.000Z'' input0 world0 = (Inr nt, w1)"
    by (simp add: create_def send_PutCommand_def take_fault_def world0_def lookup_item_def Let_def)
  then have f: "faults w1 = []"
    by (auto simp: create_def send_PutCommand_def take_fault_def world0_def lookup_item_def Let_def logger_def)
  from create_Inr[OF h1] obtain it where
    it: "lookup_item (buildPK ''clinic-a'' ''p1'', buildSK ''2024-01-15'' ''n1'') (items w1) = Some it"
        "deletedAt it = None" "version it = 1"
    by (auto simp: input0_def)
  have s: "\<forall>it. lookup_item (buildPK ''clinic-a'' ''p1'', buildSK ''2024-01-15'' ''n1'') (items w1) = Some it
              \<longrightarrow> version it \<noteq> UpdateNoteInput.version (retitle 7 ''New'')"
    using it by (simp add: retitle_def)
  have m: "conflict_message 7 1 = ''Version conflict: expected 7, current is 1''"
    by (simp add: conflict_message_def string_of_int_def string_of_nat.simps)
  from update_stale_version_conflict[OF f s, of "''u2''" "''Dr. V''" "''2024-01-16T10:00:00.000Z''"]
  show ?thesis using h1 f s it m by (auto simp: retitle_def itemToNote_def)
qed

text \<open>
  C7.  \<open>update\<close> builds a \<open>SET\<close> clause for \<open>title\<close>, \<open>content\<close> and \<open>attachments\<close> only.
  An input that carries \<open>noteType\<close> and \<open>tags\<close> (both fields of \<open>UpdateNoteInput\<close>, both
  accepted by \<open>updateNoteSchema\<close>) succeeds, increments the version, and leaves the stored
  \<open>noteType\<close> and \<open>tags\<close> as they were.
\<close>

theorem update_ignores_noteType_and_tags:
  "case create ''clinic-a'' ''p1'' ''u1'' ''Dr. U'' ''n1'' ''2024-01-15T10:00:00.000Z'' input0 world0 of
     (r1, w1) \<Rightarrow>
       (case update ''clinic-a'' ''p1'' ''n1'' ''2024-01-15'' ''u2'' ''Dr. V'' ''2024-01-16T10:00:00.000Z''
               \<lparr> UpdateNoteInput.title = None, UpdateNoteInput.content = None,
                 UpdateNoteInput.noteType = Some ''follow-up'', UpdateNoteInput.tags = Some [''sleep''],
                 UpdateNoteInput.attachments = None, UpdateNoteInput.version = 1 \<rparr> w1 of
          (Inr nt, w2) \<Rightarrow>
             version nt = 2 \<and> noteType nt = None \<and> tags nt = Some []
           \<and> map noteType (items w2) = [None] \<and> map tags (items w2) = [Some []]
           \<and> map noteType (items w1) = [None] \<and> map tags (items w1) = [Some []]
        | (Inl e, w2) \<Rightarrow> False)"
  by (simp add: create_def send_PutCommand_def take_fault_def world0_def lookup_item_def Let_def input0_def
      update_def update_try_def send_UpdateCommand_def buildPK_def buildSK_def logger_def
      updateExpressions_def replace_item_def itemToNote_def)

section \<open>Rate limiter\<close>

lemma digit_value_digit: "d < 10 \<Longrightarrow> digit_value (''0123456789'' ! d) = d"
proof -
  assume "d < 10"
  then have "d = 0 \<or> d = 1 \<or> d = 2 \<or> d = 3 \<or> d = 4 \<or> d = 5 \<or> d = 6 \<or> d = 7 \<or> d = 8 \<or> d = 9"
    by presburger
  then show ?thesis by (elim disjE) (simp_all add: digit_value_def)
qed

lemma nat_of_string_snoc: "nat_of_string (s @ [c]) = 10 * nat_of_string s + digit_value c"
  by (simp add: nat_of_string_def)

lemma nat_of_string_of_nat: "nat_of_string (string_of_nat n) = n"
proof (induction n rule: string_of_nat.induct)
  case (1 n)
  show ?case
  proof (cases "n < 10")
    case True
    then show ?thesis
      by (subst string_of_nat.simps) (simp add: nat_of_string_def digit_value_digit)
  next
    case False
    with 1 have "nat_of_string (string_of_nat (n div 10)) = n div 10" by simp
    with False show ?thesis
      by (subst string_of_nat.simps) (simp add: nat_of_string_snoc digit_value_digit)
  qed
qed

lemma string_of_nat_inj: "string_of_nat m = string_of_nat n \<Longrightarrow> m = n"
  by (metis nat_of_string_of_nat)

lemma string_of_int_inj_nonneg:
  "0 \<le> i \<Longrightarrow> 0 \<le> j \<Longrightarrow> string_of_int i = string_of_int j \<Longrightarrow> i = j"
  using string_of_nat_inj by (fastforce simp: string_of_int_def)

lemma buildRateLimitSK_inj:
  assumes "0 < ws" "0 \<le> t1" "0 \<le> t2"
      and "buildRateLimitSK ws t1 = buildRateLimitSK ws t2"
  shows "t1 div (1000 * ws) = t2 div (1000 * ws)"
proof -
  have "0 \<le> t1 div (1000 * ws) * ws" "0 \<le> t2 div (1000 * ws) * ws"
    using assms(1-3) by (simp_all add: pos_imp_zdiv_nonneg_iff)
  with assms(4) have "t1 div (1000 * ws) * ws = t2 div (1000 * ws) * ws"
    by (auto simp: buildRateLimitSK_def Let_def dest: string_of_int_inj_nonneg)
  with assms(1) show ?thesis by simp
qed

lemma find_snoc_new: "find P tbl = None \<Longrightarrow> P new \<Longrightarrow> find P (tbl @ [new]) = Some new"
  by (induction tbl) (auto split: if_splits)

lemma find_map_replace:
  "find P tbl = Some old \<Longrightarrow> P new \<Longrightarrow> find P (map (\<lambda>r. if P r then new else r) tbl) = Some new"
  by (induction tbl) (auto split: if_splits)

lemma find_snoc_other: "\<not> Q new \<Longrightarrow> find Q (tbl @ [new]) = find Q tbl"
  by (induction tbl) (auto split: if_splits)

lemma find_map_replace_other:
  "\<not> Q new \<Longrightarrow> (\<And>r. P r \<Longrightarrow> \<not> Q r) \<Longrightarrow> find Q (map (\<lambda>r. if P r then new else r) tbl) = find Q tbl"
  by (induction tbl) (auto split: if_splits)

lemma lookup_upsert_window:
  "lookup_window (PK_rl new, SK_rl new) (upsert_window new tbl) = Some new"
proof (cases "lookup_window (PK_rl new, SK_rl new) tbl")
  case None
  then show ?thesis
    unfolding upsert_window_def lookup_window_def by (simp add: find_snoc_new)
next
  case (Some old)
  then show ?thesis
    unfolding upsert_window_def lookup_window_def
    using find_map_replace[of "\<lambda>r. (PK_rl r, SK_rl r) = (PK_rl new, SK_rl new)" tbl old new] by simp
qed

lemma lookup_upsert_window_other:
  assumes "k \<noteq> (PK_rl new, SK_rl new)"
  shows "lookup_window k (upsert_window new tbl) = lookup_window k tbl"
proof (cases "lookup_window (PK_rl new, SK_rl new) tbl")
  case None
  then show ?thesis
    unfolding upsert_window_def lookup_window_def
    using assms find_snoc_other[of "\<lambda>r. (PK_rl r, SK_rl r) = k" new tbl] by auto
next
  case (Some old)
  then show ?thesis
    unfolding upsert_window_def lookup_window_def
    using assms find_map_replace_other[of "\<lambda>r. (PK_rl r, SK_rl r) = k" new
             "\<lambda>r. (PK_rl r, SK_rl r) = (PK_rl new, SK_rl new)" tbl] by auto
qed

lemma lookup_upsert_window_key:
  "(PK_rl new, SK_rl new) = k \<Longrightarrow> lookup_window k (upsert_window new tbl) = Some new"
  using lookup_upsert_window by blast


lemma incrementRateLimit_available:
  assumes "faults w = []"
  shows "\<exists>w'. incrementRateLimit ident cfg now w =
           (\<lparr>allowed = stored_count (buildRateLimitPK ident (name cfg), buildRateLimitSK (windowSeconds cfg) now) w + 1
                         \<le> maxRequests cfg,
             current = stored_count (buildRateLimitPK ident (name cfg), buildRateLimitSK (windowSeconds cfg) now) w + 1,
             limit = maxRequests cfg,
             retryAfter = max 1 (now div (1000 * windowSeconds cfg) * windowSeconds cfg + windowSeconds cfg
                                 - now div 1000)\<rparr>, w')
         \<and> faults w' = [] \<and> items w' = items w \<and> logs w' = logs w
         \<and> stored_count (buildRateLimitPK ident (name cfg), buildRateLimitSK (windowSeconds cfg) now) w'
             = stored_count (buildRateLimitPK ident (name cfg), buildRateLimitSK (windowSeconds cfg) now) w + 1
         \<and> (\<forall>k. k \<noteq> (buildRateLimitPK ident (name cfg), buildRateLimitSK (windowSeconds cfg) now)
                \<longrightarrow> lookup_window k (windows w') = lookup_window k (windows w))"
  using assms
  by (simp add: incrementRateLimit_def send_UpdateCommand_count_def take_fault_none Let_def
        stored_count_def lookup_upsert_window_key lookup_upsert_window_other)

lemma run_increments_same_window:
  assumes "faults w = []"
      and "\<forall>t\<in>set ts. buildRateLimitSK (windowSeconds cfg) t = sk"
      and "run_increments ident cfg ts w = (rs, w')"
  shows "length rs = length ts \<and> faults w' = []
       \<and> (\<forall>i<length ts. current (rs ! i) = stored_count (buildRateLimitPK ident (name cfg), sk) w + 1 + int i
                         \<and> allowed (rs ! i) = (current (rs ! i) \<le> maxRequests cfg))
       \<and> stored_count (buildRateLimitPK ident (name cfg), sk) w'
           = stored_count (buildRateLimitPK ident (name cfg), sk) w + int (length ts)
       \<and> (\<forall>k. k \<noteq> (buildRateLimitPK ident (name cfg), sk)
              \<longrightarrow> lookup_window k (windows w') = lookup_window k (windows w))"
  using assms
proof (induction ts arbitrary: w rs w')
  case Nil
  then show ?case by simp
next
  case (Cons t ts)
  let ?k = "(buildRateLimitPK ident (name cfg), sk)"
  from Cons.prems(2) have sk: "buildRateLimitSK (windowSeconds cfg) t = sk"
    and rest: "\<forall>t\<in>set ts. buildRateLimitSK (windowSeconds cfg) t = sk" by simp_all
  from incrementRateLimit_available[OF Cons.prems(1), of ident cfg t] sk
  obtain r w1 where i: "incrementRateLimit ident cfg t w = (r, w1)"
    and r: "current r = stored_count ?k w + 1" "allowed r = (current r \<le> maxRequests cfg)"
    and w1: "faults w1 = []" "stored_count ?k w1 = stored_count ?k w + 1"
            "\<forall>k. k \<noteq> ?k \<longrightarrow> lookup_window k (windows w1) = lookup_window k (windows w)"
    by auto
  obtain rs1 w2 where rr: "run_increments ident cfg ts w1 = (rs1, w2)" by force
  from Cons.prems(3) i rr have rs: "rs = r # rs1" and w': "w' = w2" by auto
  from Cons.IH[OF w1(1) rest rr] r w1 show ?case
    unfolding rs w' by (auto simp: nth_Cons split: nat.splits)
qed

text \<open>
  C8.  With the store answering and a positive window length, \<open>incrementRateLimit\<close> adds
  1 to the counter stored under the identifier's key for the window that contains the
  clock reading: the window starts at \<open>floor(seconds / windowSeconds) * windowSeconds\<close>, a
  missing record counts as 0, and no other record changes.  It returns the count after
  the increment, and \<open>allowed\<close> exactly when that count is at most \<open>maxRequests\<close>.
  Under a policy of 10 requests per 60 seconds, with no record yet for the two windows:
  of eleven increments in one window the eleventh returns count 11 and \<open>allowed = false\<close>,
  and the first increment in the next window returns count 1 and \<open>allowed = true\<close>.
\<close>

theorem incrementRateLimit_fixed_window:
  assumes "faults w = []" and "0 < windowSeconds cfg" and "0 \<le> now"
  shows "(\<exists>res w' windowStart.
            windowStart = now div 1000 div windowSeconds cfg * windowSeconds cfg
          \<and> windowStart \<le> now div 1000 \<and> now div 1000 < windowStart + windowSeconds cfg
          \<and> incrementRateLimit ident cfg now w = (res, w')
          \<and> current res
               = stored_count (buildRateLimitPK ident (name cfg), ''WINDOW#'' @ string_of_int windowStart) w + 1
          \<and> stored_count (buildRateLimitPK ident (name cfg), ''WINDOW#'' @ string_of_int windowStart) w'
               = current res
          \<and> allowed res = (current res \<le> maxRequests cfg)
          \<and> (\<forall>k. k \<noteq> (buildRateLimitPK ident (name cfg), ''WINDOW#'' @ string_of_int windowStart)
                 \<longrightarrow> lookup_window k (windows w') = lookup_window k (windows w)))
       \<and> (maxRequests cfg = 10 \<and> windowSeconds cfg = 60 \<longrightarrow>
            (\<forall>ts t'. length ts = 11 \<and> (\<forall>t\<in>set ts. 0 \<le> t \<and> t div 60000 = now div 60000)
                   \<and> t' div 60000 = now div 60000 + 1
                   \<and> stored_count (buildRateLimitPK ident (name cfg), buildRateLimitSK 60 now) w = 0
                   \<and> stored_count (buildRateLimitPK ident (name cfg), buildRateLimitSK 60 t') w = 0
               \<longrightarrow> (\<exists>rs w1 r w2. run_increments ident cfg ts w = (rs, w1)
                        \<and> current (rs ! 10) = 11 \<and> \<not> allowed (rs ! 10)
                        \<and> incrementRateLimit ident cfg t' w1 = (r, w2)
                        \<and> current r = 1 \<and> allowed r)))"
proof (intro conjI impI allI)
  let ?W = "windowSeconds cfg"
  have d: "now div (1000 * ?W) = now div 1000 div ?W"
    using assms(2) by (simp add: zdiv_zmult2_eq)
  have sk: "buildRateLimitSK ?W now = ''WINDOW#'' @ string_of_int (now div 1000 div ?W * ?W)"
    by (simp add: buildRateLimitSK_def d)
  have lo: "now div 1000 div ?W * ?W \<le> now div 1000"
    using assms(2) by (metis mult.commute pos_mod_sign minus_mod_eq_mult_div diff_le_eq le_add_same_cancel1)
  have hi: "now div 1000 < now div 1000 div ?W * ?W + ?W"
    using assms(2) by (metis add.commute mult.commute div_mult_mod_eq add_less_cancel_left pos_mod_bound)
  from incrementRateLimit_available[OF assms(1), of ident cfg now]
  show "\<exists>res w' windowStart.
            windowStart = now div 1000 div windowSeconds cfg * windowSeconds cfg
          \<and> windowStart \<le> now div 1000 \<and> now div 1000 < windowStart + windowSeconds cfg
          \<and> incrementRateLimit ident cfg now w = (res, w')
          \<and> current res
               = stored_count (buildRateLimitPK ident (name cfg), ''WINDOW#'' @ string_of_int windowStart) w + 1
          \<and> stored_count (buildRateLimitPK ident (name cfg), ''WINDOW#'' @ string_of_int windowStart) w'
               = current res
          \<and> allowed res = (current res \<le> maxRequests cfg)
          \<and> (\<forall>k. k \<noteq> (buildRateLimitPK ident (name cfg), ''WINDOW#'' @ string_of_int windowStart)
                 \<longrightarrow> lookup_window k (windows w') = lookup_window k (windows w))"
    unfolding sk using lo hi by auto
next
  fix ts :: "int list" and t' :: int
  assume cfg: "maxRequests cfg = 10 \<and> windowSeconds cfg = 60"
  assume h: "length ts = 11 \<and> (\<forall>t\<in>set ts. 0 \<le> t \<and> t div 60000 = now div 60000)
                   \<and> t' div 60000 = now div 60000 + 1
                   \<and> stored_count (buildRateLimitPK ident (name cfg), buildRateLimitSK 60 now) w = 0
                   \<and> stored_count (buildRateLimitPK ident (name cfg), buildRateLimitSK 60 t') w = 0"
  let ?pk = "buildRateLimitPK ident (name cfg)"
  let ?sk = "buildRateLimitSK 60 now"
  let ?sk' = "buildRateLimitSK 60 t'"
  have same: "\<forall>t\<in>set ts. buildRateLimitSK (windowSeconds cfg) t = ?sk"
    using h cfg by (simp add: buildRateLimitSK_def)
  have "0 \<le> now div 60000" using assms(3) by simp
  with h have t': "0 \<le> t'" by (smt (verit) pos_imp_zdiv_neg_iff)
  have "?sk' \<noteq> ?sk"
    using buildRateLimitSK_inj[of 60 t' now] t' assms(3) h by auto
  then have ne: "(?pk, ?sk') \<noteq> (?pk, ?sk)" by simp
  obtain rs w1 where run: "run_increments ident cfg ts w = (rs, w1)" by force
  from run_increments_same_window[OF assms(1) same run] h cfg
  have rs: "current (rs ! 10) = 11" "\<not> allowed (rs ! 10)"
    and w1: "faults w1 = []" "lookup_window (?pk, ?sk') (windows w1) = lookup_window (?pk, ?sk') (windows w)"
    using ne by auto
  from w1(2) h have z: "stored_count (?pk, ?sk') w1 = 0" by (simp add: stored_count_def)
  from incrementRateLimit_available[OF w1(1), of ident cfg t'] z cfg
  obtain r w2 where "incrementRateLimit ident cfg t' w1 = (r, w2)" "current r = 1" "allowed r"
    by auto
  with run rs show "\<exists>rs w1 r w2. run_increments ident cfg ts w = (rs, w1)
                        \<and> current (rs ! 10) = 11 \<and> \<not> allowed (rs ! 10)
                        \<and> incrementRateLimit ident cfg t' w1 = (r, w2)
                        \<and> current r = 1 \<and> allowed r" by blast
qed

theorem incrementRateLimit_fixed_window_witness:
  "faults world0 = [] \<and> 0 < windowSeconds RATE_LIMITS_login \<and> (0::int) \<le> 1700000000000
   \<and> (\<exists>rs w1 r w2.
         run_increments ''IP#10.0.0.1'' RATE_LIMITS_login
           [1700000000000, 1700000001000, 1700000002000, 1700000003000, 1700000004000, 1700000005000,
            1700000006000, 1700000007000, 1700000008000, 1700000009000, 1700000010000] world0 = (rs, w1)
       \<and> current (rs ! 10) = 11 \<and> \<not> allowed (rs ! 10)
       \<and> incrementRateLimit ''IP#10.0.0.1'' RATE_LIMITS_login 1700000040000 w1 = (r, w2)
       \<and> current r = 1 \<and> allowed r)"
proof -
  have h1: "faults world0 = []" by (simp add: world0_def)
  have h2: "0 < windowSeconds RATE_LIMITS_login" by (simp add: RATE_LIMITS_login_def)
  have h3: "(0::int) \<le> 1700000000000" by simp
  have cfg: "maxRequests RATE_LIMITS_login = 10 \<and> windowSeconds RATE_LIMITS_login = 60"
    by (simp add: RATE_LIMITS_login_def)
  let ?ts = "[1700000000000, 1700000001000, 1700000002000, 1700000003000, 1700000004000, 1700000005000,
            1700000006000, 1700000007000, 1700000008000, 1700000009000, 1700000010000] :: int list"
  have pre: "length ?ts = 11 \<and> (\<forall>t\<in>set ?ts. 0 \<le> t \<and> t div 60000 = 1700000000000 div 60000)
                   \<and> (1700000040000::int) div 60000 = 1700000000000 div 60000 + 1
                   \<and> stored_count (buildRateLimitPK ''IP#10.0.0.1'' (name RATE_LIMITS_login),
                                   buildRateLimitSK 60 1700000000000) world0 = 0
                   \<and> stored_count (buildRateLimitPK ''IP#10.0.0.1'' (name RATE_LIMITS_login),
                                   buildRateLimitSK 60 1700000040000) world0 = 0"
    by (simp add: stored_count_def lookup_window_def world0_def)
  from incrementRateLimit_fixed_window[OF h1 h2 h3, of "''IP#10.0.0.1''"] cfg pre
  have "\<exists>rs w1 r w2.
         run_increments ''IP#10.0.0.1'' RATE_LIMITS_login ?ts world0 = (rs, w1)
       \<and> current (rs ! 10) = 11 \<and> \<not> allowed (rs ! 10)
       \<and> incrementRateLimit ''IP#10.0.0.1'' RATE_LIMITS_login 1700000040000 w1 = (r, w2)
       \<and> current r = 1 \<and> allowed r"
    by blast
  with h1 h2 h3 show ?thesis by blast
qed

lemma take_fault_some: "faults w = Some e # fs \<Longrightarrow> take_fault w = (Some e, w\<lparr>faults := fs\<rparr>)"
  by (simp add: take_fault_def)

lemma update_try_fault:
  "faults w = Some e # fs \<Longrightarrow> update_try c p n d u un now inp w = (Inl e, w\<lparr>faults := fs\<rparr>)"
  by (simp add: update_try_def send_UpdateCommand_def take_fault_some)

lemma update_fault_Inl:
  assumes "faults w = Some e # fs"
  shows "\<exists>e' w'. update c p n d u un now inp w = (Inl e', w') \<and> items w' = items w
           \<and> (error_name e \<noteq> ''ConditionalCheckFailedException'' \<longrightarrow> e' = e)"
proof -
  obtain r w' where u: "update c p n d u un now inp w = (r, w')" by force
  then obtain e' where r: "r = Inl e'"
    by (auto simp: update_def update_try_fault[OF assms] split: if_splits prod.splits sum.splits option.splits)
  from u r update_Inl_items have "items w' = items w" by blast
  moreover from u r have "error_name e \<noteq> ''ConditionalCheckFailedException'' \<longrightarrow> e' = e"
    by (auto simp: update_def update_try_fault[OF assms])
  ultimately show ?thesis using u r by blast
qed

lemma update_reread_fault:
  assumes "faults w = None # Some e # fs"
      and "\<forall>it. lookup_item (buildPK c p, buildSK d n) (items w) = Some it
              \<longrightarrow> version it \<noteq> UpdateNoteInput.version inp"
  shows "\<exists>w'. update c p n d u un now inp w = (Inl e, w') \<and> items w' = items w"
proof -
  have t: "update_try c p n d u un now inp w = (Inl ConditionalCheckFailedException, w\<lparr>faults := Some e # fs\<rparr>)"
    using assms
    by (cases "lookup_item (buildPK c p, buildSK d n) (items w)")
       (simp_all add: update_try_def send_UpdateCommand_def take_fault_def Let_def)
  have f: "findById c p n d (w\<lparr>faults := Some e # fs\<rparr>) = (Inl e, w\<lparr>faults := fs\<rparr>)"
    by (simp add: findById_def send_GetCommand_def take_fault_def)
  show ?thesis
    by (simp add: update_def t f ConditionalCheckFailedException_def)
qed

text \<open>
  C9.  When the store throws \<open>e\<close> on the next \<open>send\<close>: \<open>incrementRateLimit\<close> and
  \<open>checkRateLimit\<close> catch it, return \<open>allowed = true\<close> with \<open>current = 0\<close>, write no counter
  and log one entry at level \<open>WARN\<close>.  \<open>create\<close> fails with \<open>e\<close> itself.  \<open>update\<close> fails
  too, with \<open>e\<close> itself unless \<open>e\<close> is named \<open>ConditionalCheckFailedException\<close> (the one
  store failure \<open>update\<close> translates, after its re-read); and when it is the re-read that
  throws \<open>e\<close>, \<open>update\<close> fails with that \<open>e\<close>.  Neither writes a note.
\<close>

theorem store_errors_fail_open_or_propagate:
  assumes "faults w = Some e # fs"
  shows "(\<exists>w'. incrementRateLimit ident cfg t w =
                 (\<lparr>allowed = True, current = 0, limit = maxRequests cfg, retryAfter = windowSeconds cfg\<rparr>, w')
              \<and> logs w' = logs w @ [(WARN, ''Rate limit increment failed, allowing request (fail-open)'')]
              \<and> windows w' = windows w)
       \<and> (\<exists>w'. checkRateLimit ident cfg t w =
                 (\<lparr>allowed = True, current = 0, limit = maxRequests cfg, retryAfter = windowSeconds cfg\<rparr>, w')
              \<and> logs w' = logs w @ [(WARN, ''Rate limit check failed, allowing request (fail-open)'')]
              \<and> windows w' = windows w)
       \<and> (\<exists>w'. create c p u un uuid now cinp w = (Inl e, w') \<and> items w' = items w)
       \<and> (\<exists>e' w'. update c p n d u un now uinp w = (Inl e', w') \<and> items w' = items w
              \<and> (error_name e \<noteq> ''ConditionalCheckFailedException'' \<longrightarrow> e' = e))
       \<and> (\<forall>wa. faults wa = None # Some e # fs
              \<and> (\<forall>it. lookup_item (buildPK c p, buildSK d n) (items wa) = Some it
                      \<longrightarrow> version it \<noteq> UpdateNoteInput.version uinp)
              \<longrightarrow> (\<exists>w'. update c p n d u un now uinp wa = (Inl e, w') \<and> items w' = items wa))"
proof (intro conjI)
  show "\<exists>w'. incrementRateLimit ident cfg t w =
                 (\<lparr>allowed = True, current = 0, limit = maxRequests cfg, retryAfter = windowSeconds cfg\<rparr>, w')
              \<and> logs w' = logs w @ [(WARN, ''Rate limit increment failed, allowing request (fail-open)'')]
              \<and> windows w' = windows w"
    by (simp add: incrementRateLimit_def send_UpdateCommand_count_def take_fault_some[OF assms] Let_def logger_def)
  show "\<exists>w'. checkRateLimit ident cfg t w =
                 (\<lparr>allowed = True, current = 0, limit = maxRequests cfg, retryAfter = windowSeconds cfg\<rparr>, w')
              \<and> logs w' = logs w @ [(WARN, ''Rate limit check failed, allowing request (fail-open)'')]
              \<and> windows w' = windows w"
    by (simp add: checkRateLimit_def send_GetCommand_count_def take_fault_some[OF assms] Let_def logger_def)
  show "\<exists>w'. create c p u un uuid now cinp w = (Inl e, w') \<and> items w' = items w"
    by (simp add: create_def send_PutCommand_def take_fault_some[OF assms] Let_def)
  show "\<exists>e' w'. update c p n d u un now uinp w = (Inl e', w') \<and> items w' = items w
              \<and> (error_name e \<noteq> ''ConditionalCheckFailedException'' \<longrightarrow> e' = e)"
    by (rule update_fault_Inl[OF assms])
  show "\<forall>wa. faults wa = None # Some e # fs
              \<and> (\<forall>it. lookup_item (buildPK c p, buildSK d n) (items wa) = Some it
                      \<longrightarrow> version it \<noteq> UpdateNoteInput.version uinp)
              \<longrightarrow> (\<exists>w'. update c p n d u un now uinp wa = (Inl e, w') \<and> items w' = items wa)"
    using update_reread_fault by blast
qed

theorem store_errors_fail_open_or_propagate_witness:
  "faults (world0\<lparr>faults := [Some (SdkError ''InternalServerError'' ''DynamoDB connection failed'')]\<rparr>)
     = Some (SdkError ''InternalServerError'' ''DynamoDB connection failed'') # []
   \<and> (\<exists>w'. incrementRateLimit ''IP#10.0.0.1'' RATE_LIMITS_login 1700000000000
              (world0\<lparr>faults := [Some (SdkError ''InternalServerError'' ''DynamoDB connection failed'')]\<rparr>)
            = (\<lparr>allowed = True, current = 0, limit = 10, retryAfter = 60\<rparr>, w')
          \<and> logs w' = [(WARN, ''Rate limit increment failed, allowing request (fail-open)'')])
   \<and> (\<exists>w'. create ''clinic-a'' ''p1'' ''u1'' ''Dr. U'' ''n1'' ''2024-01-15T10:00:00.000Z'' input0
              (world0\<lparr>faults := [Some (SdkError ''InternalServerError'' ''DynamoDB connection failed'')]\<rparr>)
            = (Inl (SdkError ''InternalServerError'' ''DynamoDB connection failed''), w')
          \<and> items w' = [])
   \<and> (\<exists>w'. update ''clinic-a'' ''p1'' ''n1'' ''2024-01-15'' ''u1'' ''Dr. U'' ''2024-01-15T10:00:00.000Z''
              (retitle 1 ''New'')
              (world0\<lparr>faults := [Some (SdkError ''InternalServerError'' ''DynamoDB connection failed'')]\<rparr>)
            = (Inl (SdkError ''InternalServerError'' ''DynamoDB connection failed''), w')
          \<and> items w' = [])"
proof -
  let ?e = "SdkError ''InternalServerError'' ''DynamoDB connection failed''"
  let ?w = "world0\<lparr>faults := [Some ?e]\<rparr>"
  have h: "faults ?w = Some ?e # []" by simp
  have n: "error_name ?e \<noteq> ''ConditionalCheckFailedException''" by simp
  from store_errors_fail_open_or_propagate[OF h, of "''IP#10.0.0.1''" RATE_LIMITS_login 1700000000000
        "''clinic-a''" "''p1''" "''u1''" "''Dr. U''" "''n1''" "''2024-01-15T10:00:00.000Z''" input0
        "''n1''" "''2024-01-15''" "retitle 1 ''New''"]
  show ?thesis using h n
    by (auto simp: RATE_LIMITS_login_def world0_def)
qed

section \<open>Cursor codec: round trip\<close>

lemma b64_value_char: "n < 64 \<Longrightarrow> b64_value (b64_char n) = Some n"
  by (auto simp: b64_value_def b64_char_def Let_def)

lemma b64_value_pad: "b64_value CHR ''='' = None"
  by (simp add: b64_value_def)

lemma b64_char_not_pad: "n < 64 \<Longrightarrow> b64_char n \<noteq> CHR ''=''"
  using b64_value_char b64_value_pad by fastforce

lemma encode_sextets: "base64url_encode s = map b64_char (sextets s)"
  by (induction s rule: sextets.induct) (simp_all add: Let_def)

lemma sx1: "x < 256 \<Longrightarrow> x div 4 < (64::nat)" by simp
lemma sx2: "y < 256 \<Longrightarrow> x mod 4 * 16 + y div 16 < (64::nat)"
proof -
  assume "y < 256"
  then have "y div 16 < 16" by simp
  moreover have "x mod 4 * 16 \<le> 48" by simp
  ultimately show ?thesis by linarith
qed
lemma sx3: "z < 256 \<Longrightarrow> y mod 16 * 4 + z div 64 < (64::nat)"
proof -
  assume "z < 256"
  then have "z div 64 < 4" by simp
  moreover have "y mod 16 * 4 \<le> 60" by simp
  ultimately show ?thesis by linarith
qed
lemma sx4: "x mod 4 * 16 < (64::nat)" "y mod 16 * 4 < (64::nat)"
  by simp_all

lemma byte1: "y < 256 \<Longrightarrow> x div 4 * 4 + (x mod 4 * 16 + y div 16) div 16 = (x::nat)"
  by (simp add: div_mult2_eq[symmetric])

lemma byte2: "y < 256 \<Longrightarrow> z < 256 \<Longrightarrow>
    (x mod 4 * 16 + y div 16) mod 16 * 16 + (y mod 16 * 4 + z div 64) div 4 = (y::nat)"
proof -
  assume y: "y < 256" and z: "z < 256"
  have a: "(x mod 4 * 16 + y div 16) mod 16 = y div 16" using y by simp
  have b: "(y mod 16 * 4 + z div 64) div 4 = y mod 16" using z by (simp add: div_mult2_eq[symmetric])
  show ?thesis unfolding a b by simp
qed

lemma byte3: "z < 256 \<Longrightarrow> (y mod 16 * 4 + z div 64) mod 4 * 64 + z mod 64 = (z::nat)"
proof -
  assume z: "z < 256"
  have a: "(y mod 16 * 4 + z div 64) mod 4 = z div 64" using z by simp
  show ?thesis unfolding a by simp
qed

lemma byte2': "y < 256 \<Longrightarrow> (x mod 4 * 16 + y div 16) mod 16 * 16 + (y mod 16 * 4) div 4 = (y::nat)"
proof -
  assume y: "y < 256"
  have a: "(x mod 4 * 16 + y div 16) mod 16 = y div 16" using y by simp
  show ?thesis unfolding a by simp
qed

lemma byte1': "x div 4 * 4 + (x mod 4 * 16) div 16 = (x::nat)"
  by simp

lemma sextets_bound: "\<forall>n\<in>set (sextets s). n < 64"
proof (induction s rule: sextets.induct)
  case (1 a b c rest)
  have "(of_char a :: nat) < 256" "(of_char b :: nat) < 256" "(of_char c :: nat) < 256" by simp_all
  with 1 show ?case by (simp add: Let_def sx1 sx2 sx3)
next
  case (2 a b)
  have "(of_char a :: nat) < 256" "(of_char b :: nat) < 256" by simp_all
  then show ?case by (simp add: Let_def sx1 sx2 sx4)
next
  case (3 a)
  have "(of_char a :: nat) < 256" by simp
  then show ?case by (simp add: Let_def sx1 sx4)
qed simp

lemma takeWhile_not_pad: "\<forall>n\<in>set ns. n < 64 \<Longrightarrow> takeWhile (\<lambda>c. c \<noteq> CHR ''='') (map b64_char ns) = map b64_char ns"
  by (induction ns) (auto simp: b64_char_not_pad)

lemma map_filter_b64: "\<forall>n\<in>set ns. n < 64 \<Longrightarrow> List.map_filter b64_value (map b64_char ns) = ns"
  by (induction ns) (auto simp: List.map_filter_simps b64_value_char)

lemma decode_group4:
  "[char_of (of_char a div 4 * 4 + (of_char a mod 4 * 16 + of_char b div 16) div 16 :: nat),
    char_of ((of_char a mod 4 * 16 + of_char b div 16) mod 16 * 16
               + (of_char b mod 16 * 4 + of_char c div 64) div 4 :: nat),
    char_of ((of_char b mod 16 * 4 + of_char c div 64) mod 4 * 64 + of_char c mod 64 :: nat)]
   = [a, b, c]"
proof -
  have b: "(of_char b :: nat) < 256" "(of_char c :: nat) < 256" by simp_all
  show ?thesis unfolding byte1[OF b(1)] byte2[OF b] byte3[OF b(2)] by simp
qed

lemma decode_group3:
  "[char_of (of_char a div 4 * 4 + (of_char a mod 4 * 16 + of_char b div 16) div 16 :: nat),
    char_of ((of_char a mod 4 * 16 + of_char b div 16) mod 16 * 16 + (of_char b mod 16 * 4) div 4 :: nat)]
   = [a, b]"
proof -
  have b: "(of_char b :: nat) < 256" by simp
  show ?thesis unfolding byte1[OF b] byte2'[OF b] by simp
qed

lemma decode_group2:
  "[char_of (of_char a div 4 * 4 + (of_char a mod 4 * 16) div 16 :: nat)] = [a]"
  unfolding byte1' by simp

lemma decode_sextets_sextets: "decode_sextets (sextets s) = s"
proof (induction s rule: sextets.induct)
  case (1 a b c rest)
  have "decode_sextets (sextets (a # b # c # rest)) =
    [char_of (of_char a div 4 * 4 + (of_char a mod 4 * 16 + of_char b div 16) div 16 :: nat),
     char_of ((of_char a mod 4 * 16 + of_char b div 16) mod 16 * 16
               + (of_char b mod 16 * 4 + of_char c div 64) div 4 :: nat),
     char_of ((of_char b mod 16 * 4 + of_char c div 64) mod 4 * 64 + of_char c mod 64 :: nat)]
    @ decode_sextets (sextets rest)"
    by (simp only: sextets.simps decode_sextets.simps Let_def append.simps)
  then show ?case unfolding decode_group4 1 by simp
next
  case (2 a b)
  have "decode_sextets (sextets [a, b]) =
    [char_of (of_char a div 4 * 4 + (of_char a mod 4 * 16 + of_char b div 16) div 16 :: nat),
     char_of ((of_char a mod 4 * 16 + of_char b div 16) mod 16 * 16 + (of_char b mod 16 * 4) div 4 :: nat)]"
    by (simp only: sextets.simps decode_sextets.simps Let_def append.simps)
  then show ?case unfolding decode_group3 .
next
  case (3 a)
  have "decode_sextets (sextets [a]) =
    [char_of (of_char a div 4 * 4 + (of_char a mod 4 * 16) div 16 :: nat)]"
    by (simp only: sextets.simps decode_sextets.simps Let_def append.simps)
  then show ?case unfolding decode_group2 .
qed simp

lemma base64url_roundtrip: "base64url_decode (base64url_encode s) = s"
  by (simp add: base64url_decode_def encode_sextets takeWhile_not_pad map_filter_b64
        sextets_bound decode_sextets_sextets)

lemma hex_value_hex_digit: "d < 16 \<Longrightarrow> hex_value (hex_digit d) = Some d"
proof -
  assume "d < 16"
  then have "d = 0 \<or> d = 1 \<or> d = 2 \<or> d = 3 \<or> d = 4 \<or> d = 5 \<or> d = 6 \<or> d = 7 \<or> d = 8 \<or> d = 9
      \<or> d = 10 \<or> d = 11 \<or> d = 12 \<or> d = 13 \<or> d = 14 \<or> d = 15"
    by presburger
  then show ?thesis by (elim disjE) (simp_all add: hex_value_def hex_digit_def)
qed

lemma hex_value_zero: "hex_value CHR ''0'' = Some 0"
  by (simp add: hex_value_def)

lemma encode_pieces_small_unit:
  "u < 0x80 \<Longrightarrow> encode_pieces (Unit u # ps) = char_of u # encode_pieces ps"
proof (cases ps)
  case Nil
  assume "u < 0x80"
  then show ?thesis using Nil by (simp add: high_surrogate_def low_surrogate_def utf8_def)
next
  case (Cons p ps')
  assume "u < 0x80"
  then show ?thesis using Cons
    by (cases p) (simp_all add: high_surrogate_def low_surrogate_def utf8_def)
qed

lemma string_pieces_escape:
  assumes "string_pieces X = Some (ps, rest)"
  shows "\<exists>p. string_pieces (escape_char c @ X) = Some (p # ps, rest)
            \<and> encode_pieces (p # ps) = c # encode_pieces ps"
proof -
  consider (quote) "c = CHR 0x22" | (backslash) "c = CHR 0x5C"
    | (named) "c = CHR 0x08 \<or> c = CHR 0x09 \<or> c = CHR 0x0A \<or> c = CHR 0x0C \<or> c = CHR 0x0D"
    | (control) "c \<noteq> CHR 0x08" "c \<noteq> CHR 0x09" "c \<noteq> CHR 0x0A" "c \<noteq> CHR 0x0C" "c \<noteq> CHR 0x0D"
                "(of_char c :: nat) < 32"
    | (plain) "c \<noteq> CHR 0x22" "c \<noteq> CHR 0x5C" "\<not> (of_char c :: nat) < 32"
    by (cases "(of_char c :: nat) < 32") auto
  then show ?thesis
  proof cases
    case quote
    with assms show ?thesis by (simp add: escape_char_def simple_escape_def)
  next
    case backslash
    with assms show ?thesis by (simp add: escape_char_def simple_escape_def)
  next
    case named
    with assms show ?thesis by (auto simp: escape_char_def simple_escape_def)
  next
    case control
    have q: "c \<noteq> CHR 0x22" "c \<noteq> CHR 0x5C" using control(6) by auto
    have d: "(of_char c :: nat) div 16 < 16" "(of_char c :: nat) mod 16 < 16" using control(6) by simp_all
    have v: "((0 * 16 + 0) * 16 + (of_char c :: nat) div 16) * 16 + of_char c mod 16 = of_char c" by simp
    have e: "escape_char c = [CHR 0x5C, CHR ''u'', CHR ''0'', CHR ''0'',
         hex_digit (of_char c div 16), hex_digit (of_char c mod 16)]"
      using control q by (simp add: escape_char_def)
    have "string_pieces (escape_char c @ X) = Some (Unit (of_char c) # ps, rest)"
      unfolding e using assms v
      by (simp add: hex_value_zero hex_value_hex_digit[OF d(1)] hex_value_hex_digit[OF d(2)])
    moreover have "encode_pieces (Unit (of_char c) # ps) = c # encode_pieces ps"
      using control(6) by (simp add: encode_pieces_small_unit)
    ultimately show ?thesis by blast
  next
    case plain
    then have e: "escape_char c = [c]" by (auto simp: escape_char_def)
    show ?thesis unfolding e using assms plain by simp
  qed
qed

lemma string_pieces_quoted:
  "\<exists>ps. string_pieces (concat (map escape_char s) @ CHR 0x22 # rest) = Some (ps, rest)
        \<and> encode_pieces ps = s"
proof (induction s)
  case Nil
  show ?case by simp
next
  case (Cons c s)
  then obtain ps where ps: "string_pieces (concat (map escape_char s) @ CHR 0x22 # rest) = Some (ps, rest)"
    "encode_pieces ps = s" by blast
  from string_pieces_escape[OF ps(1), of c] ps(2) show ?case by auto
qed

lemma parse_string_quoted:
  "parse_string (concat (map escape_char s) @ CHR 0x22 # rest) = Some (s, rest)"
  using string_pieces_quoted[of s rest] by (auto simp: parse_string_def)

lemma parse_string_PK: "parse_string (CHR ''P'' # CHR ''K'' # CHR 0x22 # X) = Some (''PK'', X)"
  by (simp add: parse_string_def)

lemma parse_string_SK: "parse_string (CHR ''S'' # CHR ''K'' # CHR 0x22 # X) = Some (''SK'', X)"
  by (simp add: parse_string_def)

lemma stringify_CursorData_chars:
  "JSON_stringify_CursorData (pk, sk) @ rest =
        CHR ''{'' # CHR 0x22 # CHR ''P'' # CHR ''K'' # CHR 0x22 #
          CHR '':'' # CHR 0x22 # (concat (map escape_char pk) @ CHR 0x22 #
          (CHR '','' # CHR 0x22 # CHR ''S'' # CHR ''K'' # CHR 0x22 #
           CHR '':'' # CHR 0x22 # (concat (map escape_char sk) @ CHR 0x22 #
          (CHR ''}'' # rest))))"
  by (simp add: JSON_stringify_CursorData_def quote_def escape_char_def)

lemma skip_ws_simps:
  "skip_ws (CHR 0x22 # X) = CHR 0x22 # X"
  "skip_ws (CHR ''{'' # X) = CHR ''{'' # X"
  "skip_ws (CHR ''}'' # X) = CHR ''}'' # X"
  "skip_ws (CHR '':'' # X) = CHR '':'' # X"
  "skip_ws (CHR '','' # X) = CHR '','' # X"
  "skip_ws [] = []"
  by (simp_all add: skip_ws_def is_ws_def)

lemma parse_value_quoted:
  "parse_value (Suc fuel) (CHR 0x22 # (concat (map escape_char s) @ CHR 0x22 # rest)) = Some (JString s, rest)"
  by (simp add: skip_ws_simps parse_string_quoted)

lemma parse_members_SK:
  "parse_members (Suc (Suc fuel))
     (CHR 0x22 # CHR ''S'' # CHR ''K'' # CHR 0x22 #
           CHR '':'' # CHR 0x22 # (concat (map escape_char sk) @ CHR 0x22 # (CHR ''}'' # rest))) acc
   = Some (JObject (acc @ [(''SK'', JString sk)]), rest)"
  by (simp add: skip_ws_simps parse_string_SK parse_value_quoted del: parse_value.simps)

lemma parse_members_PK_SK:
  "parse_members (Suc (Suc (Suc fuel)))
     (CHR 0x22 # CHR ''P'' # CHR ''K'' # CHR 0x22 #
          CHR '':'' # CHR 0x22 # (concat (map escape_char pk) @ CHR 0x22 #
          (CHR '','' # CHR 0x22 # CHR ''S'' # CHR ''K'' # CHR 0x22 #
           CHR '':'' # CHR 0x22 # (concat (map escape_char sk) @ CHR 0x22 #
          (CHR ''}'' # rest))))) []
   = Some (JObject [(''PK'', JString pk), (''SK'', JString sk)], rest)"
  apply (subst parse_members.simps)
  apply (simp add: skip_ws_simps parse_string_PK parse_value_quoted parse_members_SK
           del: parse_value.simps parse_members.simps)
  done

lemma parse_value_CursorData:
  "parse_value (Suc (Suc (Suc (Suc fuel)))) (JSON_stringify_CursorData (pk, sk) @ rest)
     = Some (JObject [(''PK'', JString pk), (''SK'', JString sk)], rest)"
  unfolding stringify_CursorData_chars
  apply (subst parse_value.simps)
  apply (simp add: skip_ws_simps parse_members_PK_SK del: parse_value.simps parse_members.simps)
  done

lemma JSON_parse_stringify:
  "JSON_parse (JSON_stringify_CursorData (pk, sk)) = Some (JObject [(''PK'', JString pk), (''SK'', JString sk)])"
proof -
  have "1 \<le> length (JSON_stringify_CursorData (pk, sk))"
    by (simp add: JSON_stringify_CursorData_def)
  then have "\<exists>fuel. 2 * length (JSON_stringify_CursorData (pk, sk)) + 2 = Suc (Suc (Suc (Suc fuel)))"
    by presburger
  then obtain fuel where f: "2 * length (JSON_stringify_CursorData (pk, sk)) + 2 = Suc (Suc (Suc (Suc fuel)))"
    by blast
  show ?thesis
    unfolding JSON_parse_def f
    using parse_value_CursorData[of fuel pk sk "[]"] by (simp add: skip_ws_simps)
qed

lemma decodeCursor_encodeCursor:
  "decodeCursor (encodeCursor (pk, sk)) =
     (if startsWith pk ''CLINIC#'' \<and> startsWith sk ''NOTE#'' then Some (pk, sk) else None)"
  by (simp add: decodeCursor_def encodeCursor_def Let_def base64url_roundtrip JSON_parse_stringify)


section \<open>\<open>JSON.parse\<close>: the bound on nested calls is never reached\<close>

text \<open>
  Every successful call of the parser consumes at least one character, so a text of
  length \<open>n\<close> needs fewer than \<open>2 * n + 2\<close> nested calls.  With that many allowed, allowing
  more changes no result: \<open>None\<close> from \<open>JSON_parse\<close> is a syntax error of the text, never
  an exhausted bound.
\<close>

lemma string_pieces_unicode:
  assumes "string_pieces (CHR 0x5C # CHR ''u'' # cs1) = Some (ps, r)"
  shows "\<exists>h1 h2 h3 h4 cs2 ps'. cs1 = h1 # h2 # h3 # h4 # cs2 \<and> string_pieces cs2 = Some (ps', r)"
proof -
  from assms obtain h1 t1 where 1: "cs1 = h1 # t1" by (cases cs1) auto
  from assms 1 obtain h2 t2 where 2: "t1 = h2 # t2" by (cases t1) auto
  from assms 1 2 obtain h3 t3 where 3: "t2 = h3 # t3" by (cases t2) auto
  from assms 1 2 3 obtain h4 t4 where 4: "t3 = h4 # t4" by (cases t3) auto
  from assms 1 2 3 4 obtain ps' where "string_pieces t4 = Some (ps', r)"
    by (cases "hex_value h1"; cases "hex_value h2"; cases "hex_value h3"; cases "hex_value h4";
        cases "string_pieces t4") auto
  with 1 2 3 4 show ?thesis by blast
qed

lemma string_pieces_simple:
  assumes "string_pieces (CHR 0x5C # e # cs1) = Some (ps, r)" "e \<noteq> CHR ''u''"
  shows "\<exists>ps'. string_pieces cs1 = Some (ps', r)"
  using assms by (cases "simple_escape e"; cases "string_pieces cs1") auto

lemma string_pieces_raw:
  assumes "string_pieces (c # cs) = Some (ps, r)" "c \<noteq> CHR 0x22" "c \<noteq> CHR 0x5C"
  shows "\<exists>ps'. string_pieces cs = Some (ps', r)"
  using assms by (cases "string_pieces cs") (auto split: if_splits)

lemma string_pieces_shorter: "string_pieces cs = Some (ps, r) \<Longrightarrow> length r < length cs"
proof (induction cs arbitrary: ps r rule: length_induct)
  case (1 cs)
  have IH: "\<And>ys ps' r'. length ys < length cs \<Longrightarrow> string_pieces ys = Some (ps', r') \<Longrightarrow> length r' < length ys"
    using "1.IH" by blast
  show ?case
  proof (cases cs)
    case Nil
    with "1.prems" show ?thesis by simp
  next
    case (Cons c cs0)
    show ?thesis
    proof (cases "c = CHR 0x22")
      case True
      with "1.prems" Cons show ?thesis by simp
    next
      case nq: False
      show ?thesis
      proof (cases "c = CHR 0x5C")
        case False
        from string_pieces_raw[OF "1.prems"[unfolded Cons] nq False]
        obtain ps' where "string_pieces cs0 = Some (ps', r)" by blast
        from IH[OF _ this] Cons show ?thesis by simp
      next
        case bs: True
        show ?thesis
        proof (cases cs0)
          case Nil
          with "1.prems" Cons bs show ?thesis by simp
        next
          case c2: (Cons e cs1)
          show ?thesis
          proof (cases "e = CHR ''u''")
            case True
            from string_pieces_unicode[OF "1.prems"[unfolded Cons c2 bs True]]
            obtain h1 h2 h3 h4 cs2 ps' where
              a: "cs1 = h1 # h2 # h3 # h4 # cs2" and b: "string_pieces cs2 = Some (ps', r)" by blast
            from IH[OF _ b] a Cons c2 show ?thesis by simp
          next
            case False
            from string_pieces_simple[OF "1.prems"[unfolded Cons c2 bs] False]
            obtain ps' where b: "string_pieces cs1 = Some (ps', r)" by blast
            from IH[OF _ b] Cons c2 show ?thesis by simp
          qed
        qed
      qed
    qed
  qed
qed

lemma parse_string_shorter: "parse_string cs = Some (s, r) \<Longrightarrow> length r < length cs"
  by (auto simp: parse_string_def split: option.splits dest: string_pieces_shorter)

lemma skip_ws_length: "length (skip_ws cs) \<le> length cs"
  by (simp add: skip_ws_def length_dropWhile_le)

lemma number_token_shorter:
  assumes "(if ip = [] then None else if A then None else if B then None
            else Some (x, drop n3 (drop n2 (drop (length ip) r0)))) = Some (v, r)"
    and "ip = [] \<or> r0 \<noteq> []" and "length r0 \<le> length cs"
  shows "length r < length cs"
proof -
  from assms(1) have ne: "ip \<noteq> []" and r: "r = drop n3 (drop n2 (drop (length ip) r0))"
    by (auto split: if_splits)
  from ne assms(2) have "r0 \<noteq> []" by simp
  with ne have "length (drop (length ip) r0) < length r0" by (cases ip) auto
  with r assms(3) show ?thesis by simp
qed

lemma parse_number_shorter:
  assumes "parse_number cs = Some (v, r)"
  shows "length r < length cs"
proof (rule number_token_shorter[OF assms[unfolded parse_number_def Let_def]])
  show "(if take 1 (drop (length (takeWhile (\<lambda>c. c = CHR ''-'') (take 1 cs))) cs) = ''0'' then ''0''
         else takeWhile is_digit (drop (length (takeWhile (\<lambda>c. c = CHR ''-'') (take 1 cs))) cs)) = []
        \<or> drop (length (takeWhile (\<lambda>c. c = CHR ''-'') (take 1 cs))) cs \<noteq> []"
    by (cases "drop (length (takeWhile (\<lambda>c. c = CHR ''-'') (take 1 cs))) cs") simp_all
  show "length (drop (length (takeWhile (\<lambda>c. c = CHR ''-'') (take 1 cs))) cs) \<le> length cs"
    by simp
qed

lemma skip_ws_Cons_length: "skip_ws cs = c # r \<Longrightarrow> length r < length cs"
  using skip_ws_length[of cs] by simp

lemma parse_value_Suc_shorter:
  assumes mem: "\<And>cs acc v r. parse_members f cs acc = Some (v, r) \<Longrightarrow> length r < length cs"
    and el: "\<And>cs acc v r. parse_elements f cs acc = Some (v, r) \<Longrightarrow> length r < length cs"
    and a: "parse_value (Suc f) cs = Some (v, r)"
  shows "length r < length cs"
proof (cases "skip_ws cs")
  case Nil
  with a show ?thesis by simp
next
  case (Cons c r0)
  note l0 = skip_ws_Cons_length[OF Cons]
  show ?thesis
  proof (cases "c = CHR 0x22")
    case True
    with a Cons obtain s where "parse_string r0 = Some (s, r)"
      by (cases "parse_string r0") auto
    from parse_string_shorter[OF this] l0 show ?thesis by simp
  next
    case nq: False
    show ?thesis
    proof (cases "c = CHR ''{''")
      case True
      show ?thesis
      proof (cases "skip_ws r0")
        case Nil
        with a Cons True show ?thesis by simp
      next
        case c1: (Cons c1 r1)
        show ?thesis
        proof (cases "c1 = CHR ''}''")
          case True
          with a Cons \<open>c = CHR ''{''\<close> c1 have "r = r1" by simp
          with skip_ws_Cons_length[OF c1] l0 show ?thesis by simp
        next
          case False
          with a Cons \<open>c = CHR ''{''\<close> c1 have "parse_members f r0 [] = Some (v, r)" by simp
          from mem[OF this] l0 show ?thesis by simp
        qed
      qed
    next
      case nb: False
      show ?thesis
      proof (cases "c = CHR ''[''")
        case True
        show ?thesis
        proof (cases "skip_ws r0")
          case Nil
          with a Cons True show ?thesis by simp
        next
          case c1: (Cons c1 r1)
          show ?thesis
          proof (cases "c1 = CHR '']''")
            case True
            with a Cons \<open>c = CHR ''[''\<close> c1 have "r = r1" by simp
            with skip_ws_Cons_length[OF c1] l0 show ?thesis by simp
          next
            case False
            with a Cons \<open>c = CHR ''[''\<close> c1 have "parse_elements f r0 [] = Some (v, r)" by simp
            from el[OF this] l0 show ?thesis by simp
          qed
        qed
      next
        case nk: False
        from a Cons nq nb nk consider
            "r = drop 3 r0" | "r = drop 4 r0" | "parse_number (c # r0) = Some (v, r)"
          by (auto split: if_splits)
        then show ?thesis
        proof cases
          case 1
          with l0 show ?thesis by simp
        next
          case 2
          with l0 show ?thesis by simp
        next
          case 3
          from parse_number_shorter[OF 3] l0 show ?thesis by simp
        qed
      qed
    qed
  qed
qed

lemma parse_elements_Suc_shorter:
  assumes val: "\<And>cs v r. parse_value f cs = Some (v, r) \<Longrightarrow> length r < length cs"
    and el: "\<And>cs acc v r. parse_elements f cs acc = Some (v, r) \<Longrightarrow> length r < length cs"
    and a: "parse_elements (Suc f) cs acc = Some (v, r)"
  shows "length r < length cs"
proof -
  from a obtain v1 r1 where v1: "parse_value f cs = Some (v1, r1)"
    by (cases "parse_value f cs") auto
  from a v1 obtain c r2 where c: "skip_ws r1 = c # r2"
    by (cases "skip_ws r1") auto
  from val[OF v1] skip_ws_Cons_length[OF c] have l: "length r2 < length cs" by simp
  from a v1 c consider "parse_elements f r2 (acc @ [v1]) = Some (v, r)" | "r = r2"
    by (auto split: if_splits)
  then show ?thesis
  proof cases
    case 1
    from el[OF 1] l show ?thesis by simp
  next
    case 2
    with l show ?thesis by simp
  qed
qed

lemma parse_members_Suc_shorter:
  assumes val: "\<And>cs v r. parse_value f cs = Some (v, r) \<Longrightarrow> length r < length cs"
    and mem: "\<And>cs acc v r. parse_members f cs acc = Some (v, r) \<Longrightarrow> length r < length cs"
    and a: "parse_members (Suc f) cs acc = Some (v, r)"
  shows "length r < length cs"
proof -
  from a obtain c r0 where c: "skip_ws cs = c # r0"
    by (cases "skip_ws cs") auto
  from a c have q: "c = CHR 0x22" by (auto split: if_splits)
  from a c q obtain k r1 where k: "parse_string r0 = Some (k, r1)"
    by (cases "parse_string r0") auto
  from a c q k obtain c1 r2 where c1: "skip_ws r1 = c1 # r2"
    by (cases "skip_ws r1") auto
  from a c q k c1 have col: "c1 = CHR '':''" by (auto split: if_splits)
  from a c q k c1 col obtain v1 r3 where v1: "parse_value f r2 = Some (v1, r3)"
    by (cases "parse_value f r2") auto
  from a c q k c1 col v1 obtain c3 r4 where c3: "skip_ws r3 = c3 # r4"
    by (cases "skip_ws r3") auto
  from skip_ws_Cons_length[OF c] parse_string_shorter[OF k] skip_ws_Cons_length[OF c1]
    val[OF v1] skip_ws_Cons_length[OF c3]
  have l: "length r4 < length cs" by simp
  from a c q k c1 col v1 c3 consider
      "parse_members f r4 (acc @ [(k, v1)]) = Some (v, r)" | "r = r4"
    by (auto split: if_splits)
  then show ?thesis
  proof cases
    case 1
    from mem[OF 1] l show ?thesis by simp
  next
    case 2
    with l show ?thesis by simp
  qed
qed

lemma parse_shorter:
  "(\<forall>cs v r. parse_value f cs = Some (v, r) \<longrightarrow> length r < length cs) \<and>
   (\<forall>cs acc v r. parse_elements f cs acc = Some (v, r) \<longrightarrow> length r < length cs) \<and>
   (\<forall>cs acc v r. parse_members f cs acc = Some (v, r) \<longrightarrow> length r < length cs)"
proof (induction f)
  case 0
  show ?case by simp
next
  case (Suc f)
  from Suc have val: "\<And>cs v r. parse_value f cs = Some (v, r) \<Longrightarrow> length r < length cs"
    and el: "\<And>cs acc v r. parse_elements f cs acc = Some (v, r) \<Longrightarrow> length r < length cs"
    and mem: "\<And>cs acc v r. parse_members f cs acc = Some (v, r) \<Longrightarrow> length r < length cs"
    by blast+
  have "\<And>cs v r. parse_value (Suc f) cs = Some (v, r) \<Longrightarrow> length r < length cs"
    by (rule parse_value_Suc_shorter[where f = f]) (erule mem, erule el, assumption)
  moreover have "\<And>cs acc v r. parse_elements (Suc f) cs acc = Some (v, r) \<Longrightarrow> length r < length cs"
    by (rule parse_elements_Suc_shorter[where f = f]) (erule val, erule el, assumption)
  moreover have "\<And>cs acc v r. parse_members (Suc f) cs acc = Some (v, r) \<Longrightarrow> length r < length cs"
    by (rule parse_members_Suc_shorter[where f = f]) (erule val, erule mem, assumption)
  ultimately show ?case by blast
qed

lemma parse_value_shorter: "parse_value f cs = Some (v, r) \<Longrightarrow> length r < length cs"
  using parse_shorter[of f] by blast

lemma parse_value_Suc_stable:
  assumes mem: "\<And>cs acc. 2 * length cs + 2 \<le> f \<Longrightarrow> parse_members (Suc f) cs acc = parse_members f cs acc"
    and el: "\<And>cs acc. 2 * length cs + 2 \<le> f \<Longrightarrow> parse_elements (Suc f) cs acc = parse_elements f cs acc"
    and le: "2 * length cs + 1 \<le> Suc f"
  shows "parse_value (Suc (Suc f)) cs = parse_value (Suc f) cs"
proof (cases "skip_ws cs")
  case Nil
  then show ?thesis by simp
next
  case (Cons c r0)
  from skip_ws_Cons_length[OF Cons] le have "2 * length r0 + 2 \<le> f" by simp
  then have "parse_members (Suc f) r0 [] = parse_members f r0 []"
    and "parse_elements (Suc f) r0 [] = parse_elements f r0 []"
    by (rule mem, rule el)
  with Cons show ?thesis
    by (simp del: parse_members.simps parse_elements.simps split: list.splits)
qed

lemma parse_elements_Suc_stable:
  assumes val: "\<And>cs. 2 * length cs + 1 \<le> f \<Longrightarrow> parse_value (Suc f) cs = parse_value f cs"
    and el: "\<And>cs acc. 2 * length cs + 2 \<le> f \<Longrightarrow> parse_elements (Suc f) cs acc = parse_elements f cs acc"
    and le: "2 * length cs + 2 \<le> Suc f"
  shows "parse_elements (Suc (Suc f)) cs acc = parse_elements (Suc f) cs acc"
proof -
  from le have "2 * length cs + 1 \<le> f" by simp
  then have v: "parse_value (Suc f) cs = parse_value f cs" by (rule val)
  show ?thesis
  proof (cases "parse_value f cs")
    case None
    with v show ?thesis by (simp del: parse_value.simps)
  next
    case (Some p)
    obtain v1 r1 where p: "p = (v1, r1)" by (cases p)
    show ?thesis
    proof (cases "skip_ws r1")
      case Nil
      with v Some p show ?thesis by (simp del: parse_value.simps)
    next
      case (Cons c r2)
      from parse_value_shorter[OF Some[unfolded p]] skip_ws_Cons_length[OF Cons] le
      have "2 * length r2 + 2 \<le> f" by simp
      then have "parse_elements (Suc f) r2 (acc @ [v1]) = parse_elements f r2 (acc @ [v1])"
        by (rule el)
      with v Some p Cons show ?thesis
        by (simp del: parse_value.simps)
    qed
  qed
qed

lemma parse_members_Suc_stable:
  assumes val: "\<And>cs. 2 * length cs + 1 \<le> f \<Longrightarrow> parse_value (Suc f) cs = parse_value f cs"
    and mem: "\<And>cs acc. 2 * length cs + 2 \<le> f \<Longrightarrow> parse_members (Suc f) cs acc = parse_members f cs acc"
    and le: "2 * length cs + 2 \<le> Suc f"
  shows "parse_members (Suc (Suc f)) cs acc = parse_members (Suc f) cs acc"
proof (cases "skip_ws cs")
  case Nil
  then show ?thesis by simp
next
  case c: (Cons c r0)
  show ?thesis
  proof (cases "parse_string r0")
    case None
    with c show ?thesis by simp
  next
    case (Some p)
    obtain k r1 where p: "p = (k, r1)" by (cases p)
    show ?thesis
    proof (cases "skip_ws r1")
      case Nil
      with c Some p show ?thesis by simp
    next
      case c1: (Cons c1 r2)
      from skip_ws_Cons_length[OF c] parse_string_shorter[OF Some[unfolded p]]
        skip_ws_Cons_length[OF c1] le
      have l2: "2 * length r2 + 1 \<le> f" by simp
      then have v: "parse_value (Suc f) r2 = parse_value f r2" by (rule val)
      show ?thesis
      proof (cases "parse_value f r2")
        case None
        with c Some p c1 v show ?thesis by (simp del: parse_value.simps)
      next
        case s3: (Some q)
        obtain v1 r3 where q: "q = (v1, r3)" by (cases q)
        show ?thesis
        proof (cases "skip_ws r3")
          case Nil
          with c Some p c1 v s3 q show ?thesis by (simp del: parse_value.simps)
        next
          case c3: (Cons c3 r4)
          from parse_value_shorter[OF s3[unfolded q]] skip_ws_Cons_length[OF c3] l2
          have "2 * length r4 + 2 \<le> f" by simp
          then have "parse_members (Suc f) r4 (acc @ [(k, v1)]) = parse_members f r4 (acc @ [(k, v1)])"
            by (rule mem)
          with c Some p c1 v s3 q c3 show ?thesis
            by (simp del: parse_value.simps)
        qed
      qed
    qed
  qed
qed

lemma parse_stable:
  "(\<forall>cs. 2 * length cs + 1 \<le> f \<longrightarrow> parse_value (Suc f) cs = parse_value f cs) \<and>
   (\<forall>cs acc. 2 * length cs + 2 \<le> f \<longrightarrow> parse_elements (Suc f) cs acc = parse_elements f cs acc) \<and>
   (\<forall>cs acc. 2 * length cs + 2 \<le> f \<longrightarrow> parse_members (Suc f) cs acc = parse_members f cs acc)"
proof (induction f)
  case 0
  show ?case by simp
next
  case (Suc f)
  from Suc have val: "\<And>cs. 2 * length cs + 1 \<le> f \<Longrightarrow> parse_value (Suc f) cs = parse_value f cs"
    and el: "\<And>cs acc. 2 * length cs + 2 \<le> f \<Longrightarrow> parse_elements (Suc f) cs acc = parse_elements f cs acc"
    and mem: "\<And>cs acc. 2 * length cs + 2 \<le> f \<Longrightarrow> parse_members (Suc f) cs acc = parse_members f cs acc"
    by blast+
  have "\<And>cs. 2 * length cs + 1 \<le> Suc f \<Longrightarrow> parse_value (Suc (Suc f)) cs = parse_value (Suc f) cs"
    by (rule parse_value_Suc_stable[where f = f]) (erule mem, erule el, assumption)
  moreover have "\<And>cs acc. 2 * length cs + 2 \<le> Suc f \<Longrightarrow>
      parse_elements (Suc (Suc f)) cs acc = parse_elements (Suc f) cs acc"
    by (rule parse_elements_Suc_stable[where f = f]) (erule val, erule el, assumption)
  moreover have "\<And>cs acc. 2 * length cs + 2 \<le> Suc f \<Longrightarrow>
      parse_members (Suc (Suc f)) cs acc = parse_members (Suc f) cs acc"
    by (rule parse_members_Suc_stable[where f = f]) (erule val, erule mem, assumption)
  ultimately show ?case by blast
qed

lemma parse_value_more_fuel:
  "2 * length cs + 1 \<le> f \<Longrightarrow> parse_value (f + n) cs = parse_value f cs"
proof (induction n)
  case 0
  show ?case by simp
next
  case (Suc n)
  from Suc.prems have "2 * length cs + 1 \<le> f + n" by simp
  with parse_stable[of "f + n"] have "parse_value (Suc (f + n)) cs = parse_value (f + n) cs"
    by blast
  with Suc show ?case by (simp del: parse_value.simps)
qed

lemma JSON_parse_fuel_independent:
  assumes "2 * length input + 2 \<le> fuel"
  shows "JSON_parse input =
     (case parse_value fuel input of
        None \<Rightarrow> None
      | Some (v, rest) \<Rightarrow> if skip_ws rest = [] then Some v else None)"
proof -
  from assms obtain n where "fuel = (2 * length input + 2) + n"
    by (metis le_Suc_ex)
  with parse_value_more_fuel[of input "2 * length input + 2" n]
  have "parse_value fuel input = parse_value (2 * length input + 2) input" by simp
  then show ?thesis by (simp add: JSON_parse_def)
qed

section \<open>Queries and listing: what a page contains\<close>

lemma query_items_member:
  assumes "it \<in> set (query_items pk kc fs lim esk fwd tbl)"
  shows "it \<in> set tbl \<and> PK it = pk \<and> key_matches kc (SK it) \<and> list_all (filter_holds it) fs
       \<and> (\<forall>spk ssk. esk = Some (spk, ssk) \<longrightarrow> (if fwd then ssk < SK it else SK it < ssk))"
  using assms
  by (cases esk; cases lim; cases fwd)
     (auto simp: query_items_def Let_def dest!: in_set_takeD)

lemma query_items_length: "length (query_items pk kc fs (Some n) esk fwd tbl) \<le> n"
proof -
  have "\<And>xs :: DynamoDBNoteItem list. length (filter (\<lambda>it. list_all (filter_holds it) fs) (take n xs)) \<le> n"
    by (metis length_filter_le length_take min.cobounded2 order_trans)
  then show ?thesis by (simp add: query_items_def Let_def)
qed

lemma sorted_rev_filter: "sorted (rev (map f xs)) \<Longrightarrow> sorted (rev (map f (filter P xs)))"
  by (metis filter_map rev_filter rev_map sorted_filter)

lemma sorted_rev_take: "sorted (rev (map f xs)) \<Longrightarrow> sorted (rev (map f (take n xs)))"
  by (metis rev_map rev_take sorted_wrt_drop drop_map)

lemma sorted_rev_sort_key: "sorted (rev (map f (rev (sort_key f xs))))"
  by (simp add: rev_map[symmetric])

lemma query_items_descending: "sorted (rev (map SK (query_items pk kc fs lim esk False tbl)))"
  by (cases esk; cases lim)
     (auto simp: query_items_def Let_def
           intro!: sorted_rev_filter sorted_rev_take sorted_rev_sort_key)

lemma send_QueryCommand_Inr:
  assumes "send_QueryCommand pk kc fs lim esk fwd w = (Inr res, w')"
  shows "res = query_items pk kc fs lim esk fwd (world.items w)
       \<and> world.items w' = world.items w \<and> windows w' = windows w \<and> logs w' = logs w
       \<and> (\<forall>spk ssk. esk = Some (spk, ssk) \<longrightarrow> spk = pk \<and> key_matches kc ssk)"
  using assms unfolding send_QueryCommand_def
  by (cases w rule: take_fault_cases) (auto split: option.splits if_splits)

lemma send_QueryCommand_frame:
  assumes "send_QueryCommand pk kc fs lim esk fwd w = (r, w')"
  shows "world.items w' = world.items w \<and> windows w' = windows w \<and> logs w' = logs w"
  using assms unfolding send_QueryCommand_def
  by (cases w rule: take_fault_cases) (auto split: option.splits if_splits)

lemma send_QueryCommand_available:
  "faults w = [] \<Longrightarrow>
   send_QueryCommand pk kc fs lim esk fwd w =
     (case esk of
        None \<Rightarrow> (Inr (query_items pk kc fs lim esk fwd (world.items w)), w)
      | Some (spk, ssk) \<Rightarrow>
          if spk \<noteq> pk \<or> \<not> key_matches kc ssk then (Inl ValidationException, w)
          else (Inr (query_items pk kc fs lim esk fwd (world.items w)), w))"
  by (simp add: send_QueryCommand_def take_fault_none split: option.splits)

lemma butlast_Nil_iff: "(butlast xs = []) = (length xs \<le> Suc 0)"
  by (cases xs rule: rev_cases) auto

lemma list_notes_Inr:
  assumes "list_notes c p opts w = (Inr page, w')"
  shows "\<exists>res esk.
           esk = (if truthy (cursor opts) then decodeCursor (the (cursor opts)) else None)
         \<and> send_QueryCommand (buildPK c p) (list_keyCondition opts) (list_filterConditions opts)
              (Some (ListNotesOptions.limit opts + 1)) esk False w = (Inr res, w')
         \<and> res = query_items (buildPK c p) (list_keyCondition opts) (list_filterConditions opts)
              (Some (ListNotesOptions.limit opts + 1)) esk False (world.items w)
         \<and> PaginatedResponse.items page
              = map itemToNote (if ListNotesOptions.limit opts < length res then butlast res else res)
         \<and> hasMore page = (ListNotesOptions.limit opts < length res)
         \<and> nextCursor page
              = (if ListNotesOptions.limit opts < length res \<and> 0 < length (butlast res)
                 then Some (encodeCursor (PK (last (butlast res)), SK (last (butlast res))))
                 else None)"
proof -
  let ?esk = "if truthy (cursor opts) then decodeCursor (the (cursor opts)) else None"
  obtain r w1 where q: "send_QueryCommand (buildPK c p) (list_keyCondition opts) (list_filterConditions opts)
              (Some (ListNotesOptions.limit opts + 1)) ?esk False w = (r, w1)" by force
  with assms obtain res where r: "r = Inr res" and w1: "w1 = w'"
    by (cases r) (auto simp: list_notes_def Let_def)
  from send_QueryCommand_Inr[OF q[unfolded r]] have
    res: "res = query_items (buildPK c p) (list_keyCondition opts) (list_filterConditions opts)
              (Some (ListNotesOptions.limit opts + 1)) ?esk False (world.items w)" by simp
  from assms q r w1 have
    "page = \<lparr>PaginatedResponse.items
               = map itemToNote (if ListNotesOptions.limit opts < length res then butlast res else res),
             nextCursor = (if ListNotesOptions.limit opts < length res
                              \<and> 0 < length (if ListNotesOptions.limit opts < length res then butlast res else res)
                 then Some (encodeCursor
                   (PK (last (if ListNotesOptions.limit opts < length res then butlast res else res)),
                    SK (last (if ListNotesOptions.limit opts < length res then butlast res else res))))
                 else None),
             hasMore = (ListNotesOptions.limit opts < length res)\<rparr>"
    by (simp add: list_notes_def Let_def)
  then have pg: "PaginatedResponse.items page
              = map itemToNote (if ListNotesOptions.limit opts < length res then butlast res else res)"
     "hasMore page = (ListNotesOptions.limit opts < length res)"
     "nextCursor page
              = (if ListNotesOptions.limit opts < length res \<and> 0 < length (butlast res)
                 then Some (encodeCursor (PK (last (butlast res)), SK (last (butlast res))))
                 else None)"
    by (auto simp: butlast_Nil_iff)
  from q r w1 have q': "send_QueryCommand (buildPK c p) (list_keyCondition opts) (list_filterConditions opts)
              (Some (ListNotesOptions.limit opts + 1)) ?esk False w = (Inr res, w')" by simp
  show ?thesis
    by (intro exI[of _ res] exI[of _ ?esk] conjI refl q' res pg)
qed

lemma list_notes_kept:
  assumes "list_notes c p opts w = (Inr page, w')"
  shows "\<exists>kept. PaginatedResponse.items page = map itemToNote kept
           \<and> (\<forall>it\<in>set kept. it \<in> set (world.items w) \<and> PK it = buildPK c p \<and> deletedAt it = None)"
proof -
  from list_notes_Inr[OF assms] obtain res esk where
    res: "res = query_items (buildPK c p) (list_keyCondition opts) (list_filterConditions opts)
              (Some (ListNotesOptions.limit opts + 1)) esk False (world.items w)"
    and pg: "PaginatedResponse.items page
              = map itemToNote (if ListNotesOptions.limit opts < length res then butlast res else res)"
    by blast
  let ?kept = "if ListNotesOptions.limit opts < length res then butlast res else res"
  have sub: "set ?kept \<subseteq> set res" by (auto dest: in_set_butlastD)
  have "\<forall>it\<in>set res. it \<in> set (world.items w) \<and> PK it = buildPK c p \<and> deletedAt it = None"
    unfolding res using query_items_member
    by (fastforce simp: list_filterConditions_def)
  with sub pg show ?thesis by blast
qed





section \<open>Tenant isolation of \<open>list\<close>\<close>




section \<open>Cursor codec: what decoding accepts\<close>




section \<open>Soft delete: a read-side filter\<close>

lemma findByIdWithoutStudyDate_available:
  "faults w = [] \<Longrightarrow>
   findByIdWithoutStudyDate c p nid w =
     (case query_items (buildPK c p) (SK_begins_with ''NOTE#'')
             [filter_noteId_equals nid, filter_attribute_not_exists_deletedAt] None None True (world.items w) of
        [] \<Rightarrow> (Inr None, w)
      | first # others \<Rightarrow> (Inr (Some (itemToNote first)), w))"
  by (simp add: findByIdWithoutStudyDate_def send_QueryCommand_available Let_def)

lemma findByIdWithoutStudyDate_Some:
  assumes "findByIdWithoutStudyDate c p nid w = (Inr (Some r), w')"
  shows "\<exists>it\<in>set (world.items w). r = itemToNote it \<and> PK it = buildPK c p \<and> noteId it = nid
           \<and> deletedAt it = None"
proof -
  obtain q w1 where q: "send_QueryCommand (buildPK c p) (SK_begins_with ''NOTE#'')
      [filter_noteId_equals nid, filter_attribute_not_exists_deletedAt] None None True w = (q, w1)" by force
  with assms obtain first others where f: "q = Inr (first # others)" and r: "r = itemToNote first"
    by (auto simp: findByIdWithoutStudyDate_def Let_def split: sum.splits list.splits)
  from send_QueryCommand_Inr[OF q[unfolded f]]
  have "first \<in> set (query_items (buildPK c p) (SK_begins_with ''NOTE#'')
      [filter_noteId_equals nid, filter_attribute_not_exists_deletedAt] None None True (world.items w))"
    by (metis list.set_intros(1))
  from query_items_member[OF this] r show ?thesis by auto
qed

lemma softDelete_deleted:
  assumes "faults w = []"
      and "lookup_item (buildPK c p, buildSK d n) (world.items w) = Some it"
      and "deletedAt it = Some ts"
  shows "softDelete c p n d u now w = (Inl (NotFoundError ''Note'' n), w)"
  using assms
  by (simp add: softDelete_def softDelete_try_def send_UpdateCommand_def take_fault_none Let_def
        ConditionalCheckFailedException_def)

text \<open>
  C3.  Let the item stored under a note's key carry \<open>deletedAt\<close>, a non-empty string as
  every timestamp \<open>softDelete\<close> writes is, and let the store answer.  Then \<open>findById\<close> finds
  nothing; the scan by identity returns only live notes, and nothing when every stored
  item of the partition with that \<open>noteId\<close> is soft-deleted; no page of \<open>list\<close>, whatever the
  options, contains the note or any other soft-deleted one; and \<open>softDelete\<close> fails with
  \<open>NotFoundError\<close>.  None of these calls changes the table: the item is still stored, with
  \<open>deletedAt\<close> set.
\<close>

theorem soft_deleted_note_is_hidden_not_removed:
  assumes "faults w = []"
      and "lookup_item (buildPK c p, buildSK d n) (world.items w) = Some it"
      and "deletedAt it = Some ts" and "ts \<noteq> []"
  shows "findById c p n d w = (Inr None, w)
       \<and> ((\<forall>it'\<in>set (world.items w). PK it' = buildPK c p \<and> noteId it' = noteId it \<longrightarrow> deletedAt it' \<noteq> None)
            \<longrightarrow> findByIdWithoutStudyDate c p (noteId it) w = (Inr None, w))
       \<and> (\<forall>nid r w'. findByIdWithoutStudyDate c p nid w = (Inr (Some r), w') \<longrightarrow>
              deletedAt r = None \<and> r \<noteq> itemToNote it)
       \<and> (\<forall>opts page w'. list_notes c p opts w = (Inr page, w') \<longrightarrow>
              itemToNote it \<notin> set (PaginatedResponse.items page)
            \<and> (\<forall>r\<in>set (PaginatedResponse.items page). deletedAt r = None)
            \<and> world.items w' = world.items w)
       \<and> softDelete c p n d u now w = (Inl (NotFoundError ''Note'' n), w)
       \<and> lookup_item (buildPK c p, buildSK d n) (world.items w) = Some it
       \<and> deletedAt it \<noteq> None"
proof (intro conjI allI impI)
  show "findById c p n d w = (Inr None, w)"
    using assms by (simp add: findById_available)
next
  assume a: "\<forall>it'\<in>set (world.items w). PK it' = buildPK c p \<and> noteId it' = noteId it \<longrightarrow> deletedAt it' \<noteq> None"
  have "query_items (buildPK c p) (SK_begins_with ''NOTE#'')
             [filter_noteId_equals (noteId it), filter_attribute_not_exists_deletedAt] None None True (world.items w) = []"
  proof (rule ccontr)
    assume "query_items (buildPK c p) (SK_begins_with ''NOTE#'')
             [filter_noteId_equals (noteId it), filter_attribute_not_exists_deletedAt] None None True (world.items w) \<noteq> []"
    then obtain x where "x \<in> set (query_items (buildPK c p) (SK_begins_with ''NOTE#'')
             [filter_noteId_equals (noteId it), filter_attribute_not_exists_deletedAt] None None True (world.items w))"
      by (meson last_in_set)
    from query_items_member[OF this] a show False by auto
  qed
  then show "findByIdWithoutStudyDate c p (noteId it) w = (Inr None, w)"
    by (simp add: findByIdWithoutStudyDate_available[OF assms(1)])
next
  fix nid r w'
  assume "findByIdWithoutStudyDate c p nid w = (Inr (Some r), w')"
  from findByIdWithoutStudyDate_Some[OF this]
  show "deletedAt r = None" "r \<noteq> itemToNote it"
    using assms(3) by (auto simp: itemToNote_def)
next
  fix opts page w'
  assume l: "list_notes c p opts w = (Inr page, w')"
  from list_notes_kept[OF l] obtain kept where
    k: "PaginatedResponse.items page = map itemToNote kept" "\<forall>x\<in>set kept. deletedAt x = None"
    by blast
  then show live: "\<forall>r\<in>set (PaginatedResponse.items page). deletedAt r = None"
    by (auto simp: itemToNote_def)
  then show "itemToNote it \<notin> set (PaginatedResponse.items page)"
    using assms(3) by (auto simp: itemToNote_def)
  from list_notes_Inr[OF l] send_QueryCommand_frame
  show "world.items w' = world.items w" by blast
next
  show "softDelete c p n d u now w = (Inl (NotFoundError ''Note'' n), w)"
    by (rule softDelete_deleted[OF assms(1-3)])
  show "lookup_item (buildPK c p, buildSK d n) (world.items w) = Some it" by (rule assms(2))
  show "deletedAt it \<noteq> None" using assms(3) by simp
qed

theorem soft_deleted_note_is_hidden_not_removed_witness:
  "\<exists>w1 w2 it.
     w1 = snd (create ''clinic-a'' ''p1'' ''u1'' ''Dr. U'' ''n1'' ''2024-01-15T10:00:00.000Z'' input0 world0)
   \<and> softDelete ''clinic-a'' ''p1'' ''n1'' ''2024-01-15'' ''u9'' ''2024-02-01T08:00:00.000Z'' w1 = (Inr (), w2)
   \<and> faults w2 = []
   \<and> lookup_item (buildPK ''clinic-a'' ''p1'', buildSK ''2024-01-15'' ''n1'') (world.items w2) = Some it
   \<and> deletedAt it = Some ''2024-02-01T08:00:00.000Z'' \<and> ''2024-02-01T08:00:00.000Z'' \<noteq> []
   \<and> findById ''clinic-a'' ''p1'' ''n1'' ''2024-01-15'' w2 = (Inr None, w2)
   \<and> findByIdWithoutStudyDate ''clinic-a'' ''p1'' ''n1'' w2 = (Inr None, w2)
   \<and> softDelete ''clinic-a'' ''p1'' ''n1'' ''2024-01-15'' ''u9'' ''2024-02-02T08:00:00.000Z'' w2
        = (Inl (NotFoundError ''Note'' ''n1''), w2)"
proof -
  define w1 where "w1 = snd (create ''clinic-a'' ''p1'' ''u1'' ''Dr. U'' ''n1'' ''2024-01-15T10:00:00.000Z'' input0 world0)"
  define w2 where "w2 = snd (softDelete ''clinic-a'' ''p1'' ''n1'' ''2024-01-15'' ''u9'' ''2024-02-01T08:00:00.000Z'' w1)"
  define it where "it = hd (world.items w2)"
  have s: "softDelete ''clinic-a'' ''p1'' ''n1'' ''2024-01-15'' ''u9'' ''2024-02-01T08:00:00.000Z'' w1 = (Inr (), w2)"
  proof -
    have "fst (softDelete ''clinic-a'' ''p1'' ''n1'' ''2024-01-15'' ''u9'' ''2024-02-01T08:00:00.000Z'' w1) = Inr ()"
      unfolding w1_def by code_simp
    then show ?thesis unfolding w2_def by (metis prod.collapse)
  qed
  have f: "faults w2 = []" unfolding w2_def w1_def by code_simp
  have l: "lookup_item (buildPK ''clinic-a'' ''p1'', buildSK ''2024-01-15'' ''n1'') (world.items w2) = Some it"
    unfolding it_def w2_def w1_def by code_simp
  have d: "deletedAt it = Some ''2024-02-01T08:00:00.000Z''"
    unfolding it_def w2_def w1_def by code_simp
  have ne: "''2024-02-01T08:00:00.000Z'' \<noteq> []" by simp
  have n: "noteId it = ''n1''" unfolding it_def w2_def w1_def by code_simp
  have a: "\<forall>it'\<in>set (world.items w2). PK it' = buildPK ''clinic-a'' ''p1'' \<and> noteId it' = noteId it
             \<longrightarrow> deletedAt it' \<noteq> None"
    unfolding it_def w2_def w1_def by code_simp
  note t = soft_deleted_note_is_hidden_not_removed[OF f l d ne, of "''u9''" "''2024-02-02T08:00:00.000Z''"]
  have g: "findById ''clinic-a'' ''p1'' ''n1'' ''2024-01-15'' w2 = (Inr None, w2)"
    using t[THEN conjunct1] .
  have h: "findByIdWithoutStudyDate ''clinic-a'' ''p1'' ''n1'' w2 = (Inr None, w2)"
    using t[THEN conjunct2, THEN conjunct1, THEN mp, OF a] unfolding n .
  have k: "softDelete ''clinic-a'' ''p1'' ''n1'' ''2024-01-15'' ''u9'' ''2024-02-02T08:00:00.000Z'' w2
        = (Inl (NotFoundError ''Note'' ''n1''), w2)"
    using t[THEN conjunct2, THEN conjunct2, THEN conjunct2, THEN conjunct2, THEN conjunct1] .
  show ?thesis
    by (intro exI[of _ w1] exI[of _ w2] exI[of _ it] conjI w1_def s f l d ne g h k)
qed

section \<open>Pagination\<close>

lemma base64url_encode_Nil_iff: "(base64url_encode s = []) = (s = [])"
  by (induction s rule: base64url_encode.induct) (simp_all add: Let_def)

lemma encodeCursor_not_Nil: "encodeCursor k \<noteq> []"
  by (simp add: encodeCursor_def Let_def base64url_encode_Nil_iff JSON_stringify_CursorData_def)

lemma buildPK_startsWith: "startsWith (buildPK c p) ''CLINIC#''"
  by (simp add: buildPK_def startsWith_def)

lemma five_descending:
  assumes "partition_notes_descending pk w = [a, b, c, d, e]"
      and "distinct (map SK [a, b, c, d, e])"
  shows "SK b < SK a" "SK c < SK b" "SK d < SK c" "SK e < SK d"
proof -
  let ?xs = "sort_key SK (filter (\<lambda>it. PK it = pk \<and> startsWith (SK it) ''NOTE#'') (world.items w))"
  have "rev ?xs = [a, b, c, d, e]"
    using assms(1) by (simp only: partition_notes_descending_def)
  then have x: "?xs = [e, d, c, b, a]"
    by (simp add: rev_swap)
  have "sorted (map SK ?xs)" by simp
  then have "sorted (map SK [e, d, c, b, a])" by (simp only: x)
  then have le: "SK e \<le> SK d" "SK d \<le> SK c" "SK c \<le> SK b" "SK b \<le> SK a" by simp_all
  from assms(2) have ne: "SK e \<noteq> SK d" "SK d \<noteq> SK c" "SK c \<noteq> SK b" "SK b \<noteq> SK a" by auto
  from le ne show "SK b < SK a" "SK c < SK b" "SK d < SK c" "SK e < SK d" by simp_all
qed

lemma five_members:
  assumes "partition_notes_descending pk w = [a, b, c, d, e]"
  shows "\<forall>x\<in>set [a, b, c, d, e]. PK x = pk \<and> startsWith (SK x) ''NOTE#''"
proof -
  have "set (partition_notes_descending pk w)
      = set (filter (\<lambda>it. PK it = pk \<and> startsWith (SK it) ''NOTE#'') (world.items w))"
    by (simp only: partition_notes_descending_def set_rev set_sort)
  then have "set [a, b, c, d, e] = set (filter (\<lambda>it. PK it = pk \<and> startsWith (SK it) ''NOTE#'') (world.items w))"
    by (simp only: assms)
  then have "\<forall>x\<in>set [a, b, c, d, e]. x \<in> set (filter (\<lambda>it. PK it = pk \<and> startsWith (SK it) ''NOTE#'') (world.items w))"
    by blast
  then show ?thesis by (simp only: set_filter mem_Collect_eq) blast
qed

lemma pages_of_two_simps:
  "cursor (pages_of_two c) = c" "ListNotesOptions.limit (pages_of_two c) = 2"
  "list_keyCondition (pages_of_two c) = SK_begins_with ''NOTE#''"
  "list_filterConditions (pages_of_two c) = [filter_attribute_not_exists_deletedAt]"
  by (simp_all add: pages_of_two_def list_keyCondition_def list_filterConditions_def)

lemma query_page_of_five:
  assumes "partition_notes_descending pk w = P"
  shows "query_items pk (SK_begins_with ''NOTE#'') [filter_attribute_not_exists_deletedAt] (Some 3) esk False
           (world.items w)
         = filter (\<lambda>it. deletedAt it = None)
             (take 3 (case esk of None \<Rightarrow> P | Some (spk, ssk) \<Rightarrow> filter (\<lambda>it. SK it < ssk) P))"
proof -
  have m: "(\<lambda>it. PK it = pk \<and> key_matches (SK_begins_with ''NOTE#'') (SK it))
         = (\<lambda>it. PK it = pk \<and> startsWith (SK it) ''NOTE#'')" by simp
  have h: "(\<lambda>it. list_all (filter_holds it) [filter_attribute_not_exists_deletedAt])
         = (\<lambda>it. deletedAt it = None)" by simp
  show ?thesis
    unfolding query_items_def Let_def m h if_False assms[unfolded partition_notes_descending_def]
    by simp
qed

lemma five_notes_three_pages:
  assumes f: "faults w = []"
      and P: "partition_notes_descending (buildPK cl pa) w = [a, b, c, d, e]"
      and dist: "distinct (map SK [a, b, c, d, e])"
      and live: "\<forall>it\<in>set [a, b, c, d, e]. deletedAt it = None"
  shows "list_notes cl pa (pages_of_two None) w =
           (Inr \<lparr>PaginatedResponse.items = map itemToNote [a, b],
                 nextCursor = Some (encodeCursor (PK b, SK b)), hasMore = True\<rparr>, w)"
    and "list_notes cl pa (pages_of_two (Some (encodeCursor (PK b, SK b)))) w =
           (Inr \<lparr>PaginatedResponse.items = map itemToNote [c, d],
                 nextCursor = Some (encodeCursor (PK d, SK d)), hasMore = True\<rparr>, w)"
    and "list_notes cl pa (pages_of_two (Some (encodeCursor (PK d, SK d)))) w =
           (Inr \<lparr>PaginatedResponse.items = map itemToNote [e],
                 nextCursor = None, hasMore = False\<rparr>, w)"
proof -
  note lt = five_descending[OF P dist]
  note mem = five_members[OF P]
  note q = query_page_of_five[OF P]
  have lv: "deletedAt a = None" "deletedAt b = None" "deletedAt c = None" "deletedAt d = None" "deletedAt e = None"
    using live by simp_all
  have kb: "PK b = buildPK cl pa" "startsWith (SK b) ''NOTE#''" "startsWith (PK b) ''CLINIC#''"
    using mem buildPK_startsWith by auto
  have kd: "PK d = buildPK cl pa" "startsWith (SK d) ''NOTE#''" "startsWith (PK d) ''CLINIC#''"
    using mem buildPK_startsWith by auto
  have after_b: "filter (\<lambda>it. SK it < SK b) [a, b, c, d, e] = [c, d, e]"
    using lt by auto
  have after_d: "filter (\<lambda>it. SK it < SK d) [a, b, c, d, e] = [e]"
    using lt by auto
  let ?pk = "buildPK cl pa"
  let ?kc = "SK_begins_with ''NOTE#''"
  let ?fc = "[filter_attribute_not_exists_deletedAt]"
  have q1: "query_items ?pk ?kc ?fc (Some 3) None False (world.items w) = [a, b, c]"
    by (subst q) (simp add: lv)
  have q2: "query_items ?pk ?kc ?fc (Some 3) (Some (spk, SK b)) False (world.items w) = [c, d, e]" for spk
    apply (subst q)
    apply (simp only: option.case prod.case after_b)
    apply (simp add: lv)
    done
  have q3: "query_items ?pk ?kc ?fc (Some 3) (Some (spk, SK d)) False (world.items w) = [e]" for spk
    apply (subst q)
    apply (simp only: option.case prod.case after_d)
    apply (simp add: lv)
    done
  have s1: "send_QueryCommand ?pk ?kc ?fc (Some 3) None False w = (Inr [a, b, c], w)"
    by (simp add: send_QueryCommand_available[OF f] q1)
  have s2: "send_QueryCommand ?pk ?kc ?fc (Some 3) (Some (PK b, SK b)) False w = (Inr [c, d, e], w)"
    by (simp add: send_QueryCommand_available[OF f] q2 kb(1,2))
  have s3: "send_QueryCommand ?pk ?kc ?fc (Some 3) (Some (PK d, SK d)) False w = (Inr [e], w)"
    by (simp add: send_QueryCommand_available[OF f] q3 kd(1,2))
  have e2: "(if truthy (Some (encodeCursor (PK b, SK b))) then decodeCursor (the (Some (encodeCursor (PK b, SK b)))) else None)
       = Some (PK b, SK b)"
    by (simp add: encodeCursor_not_Nil decodeCursor_encodeCursor kb(2,3))
  have e3: "(if truthy (Some (encodeCursor (PK d, SK d))) then decodeCursor (the (Some (encodeCursor (PK d, SK d)))) else None)
       = Some (PK d, SK d)"
    by (simp add: encodeCursor_not_Nil decodeCursor_encodeCursor kd(2,3))
  have three: "(2::nat) + 1 = 3" by simp
  show "list_notes cl pa (pages_of_two None) w =
           (Inr \<lparr>PaginatedResponse.items = map itemToNote [a, b],
                 nextCursor = Some (encodeCursor (PK b, SK b)), hasMore = True\<rparr>, w)"
    unfolding list_notes_def pages_of_two_simps Let_def three
    by (simp add: s1)
  show "list_notes cl pa (pages_of_two (Some (encodeCursor (PK b, SK b)))) w =
           (Inr \<lparr>PaginatedResponse.items = map itemToNote [c, d],
                 nextCursor = Some (encodeCursor (PK d, SK d)), hasMore = True\<rparr>, w)"
    unfolding list_notes_def pages_of_two_simps Let_def three e2
    by (simp add: s2)
  show "list_notes cl pa (pages_of_two (Some (encodeCursor (PK d, SK d)))) w =
           (Inr \<lparr>PaginatedResponse.items = map itemToNote [e],
                 nextCursor = None, hasMore = False\<rparr>, w)"
    unfolding list_notes_def pages_of_two_simps Let_def three e3
    by (simp add: s3)
qed

text \<open>
  C6.  \<open>list\<close> sends one query, for \<open>limit + 1\<close> items in descending sort-key order, and
  builds the page from what comes back (at most \<open>limit + 1\<close> items, most recent first).
  For a page size of at least 1: when \<open>limit + 1\<close> items come back the last is dropped,
  the page holds exactly \<open>limit\<close> items, \<open>hasMore\<close> is true and the cursor encodes the key
  pair of the last kept item; when \<open>limit\<close> or fewer come back the page holds them all,
  \<open>hasMore\<close> is false and there is no cursor.  Over a partition of five live notes, with
  the store answering, pages of two are: the two most recent with a cursor, under that
  cursor the next two with a cursor, and under that one the last note, without cursor
  and with \<open>hasMore\<close> false.
\<close>

theorem list_pages_by_limit_plus_one:
  assumes "0 < ListNotesOptions.limit opts"
      and "send_QueryCommand (buildPK cl pa) (list_keyCondition opts) (list_filterConditions opts)
             (Some (ListNotesOptions.limit opts + 1))
             (if truthy (cursor opts) then decodeCursor (the (cursor opts)) else None) False w
           = (Inr res, w1)"
  shows "(\<exists>page. list_notes cl pa opts w = (Inr page, w1)
            \<and> length res \<le> ListNotesOptions.limit opts + 1
            \<and> sorted (rev (map SK res))
            \<and> (length res = ListNotesOptions.limit opts + 1 \<longrightarrow>
                  PaginatedResponse.items page = map itemToNote (butlast res)
                \<and> length (PaginatedResponse.items page) = ListNotesOptions.limit opts
                \<and> hasMore page
                \<and> nextCursor page = Some (encodeCursor (PK (last (butlast res)), SK (last (butlast res)))))
            \<and> (length res \<le> ListNotesOptions.limit opts \<longrightarrow>
                  PaginatedResponse.items page = map itemToNote res
                \<and> \<not> hasMore page
                \<and> nextCursor page = None))
       \<and> (\<forall>a b c d e.
             faults w = []
           \<and> partition_notes_descending (buildPK cl pa) w = [a, b, c, d, e]
           \<and> distinct (map SK [a, b, c, d, e])
           \<and> (\<forall>it\<in>set [a, b, c, d, e]. deletedAt it = None)
           \<longrightarrow> (\<exists>c1 c2.
                  list_notes cl pa (pages_of_two None) w =
                    (Inr \<lparr>PaginatedResponse.items = map itemToNote [a, b],
                          nextCursor = Some c1, hasMore = True\<rparr>, w)
                \<and> list_notes cl pa (pages_of_two (Some c1)) w =
                    (Inr \<lparr>PaginatedResponse.items = map itemToNote [c, d],
                          nextCursor = Some c2, hasMore = True\<rparr>, w)
                \<and> list_notes cl pa (pages_of_two (Some c2)) w =
                    (Inr \<lparr>PaginatedResponse.items = map itemToNote [e],
                          nextCursor = None, hasMore = False\<rparr>, w)))"
proof (rule conjI)
  let ?lim = "ListNotesOptions.limit opts"
  from send_QueryCommand_Inr[OF assms(2)]
  have res: "res = query_items (buildPK cl pa) (list_keyCondition opts) (list_filterConditions opts)
             (Some (?lim + 1))
             (if truthy (cursor opts) then decodeCursor (the (cursor opts)) else None) False (world.items w)"
    by simp
  have len: "length res \<le> ?lim + 1" unfolding res by (rule query_items_length)
  have srt: "sorted (rev (map SK res))" unfolding res by (rule query_items_descending)
  let ?page = "\<lparr>PaginatedResponse.items = map itemToNote (if ?lim < length res then butlast res else res),
                nextCursor = (if ?lim < length res \<and> 0 < length (if ?lim < length res then butlast res else res)
                              then Some (encodeCursor
                                (PK (last (if ?lim < length res then butlast res else res)),
                                 SK (last (if ?lim < length res then butlast res else res))))
                              else None),
                hasMore = (?lim < length res)\<rparr>"
  have l: "list_notes cl pa opts w = (Inr ?page, w1)"
    using assms(2) by (simp add: list_notes_def Let_def)
  have full: "length res = ?lim + 1 \<longrightarrow>
                  PaginatedResponse.items ?page = map itemToNote (butlast res)
                \<and> length (PaginatedResponse.items ?page) = ?lim
                \<and> hasMore ?page
                \<and> nextCursor ?page = Some (encodeCursor (PK (last (butlast res)), SK (last (butlast res))))"
    using assms(1) by simp
  have part: "length res \<le> ?lim \<longrightarrow>
                  PaginatedResponse.items ?page = map itemToNote res
                \<and> \<not> hasMore ?page
                \<and> nextCursor ?page = None"
    by simp
  show "\<exists>page. list_notes cl pa opts w = (Inr page, w1)
            \<and> length res \<le> ?lim + 1
            \<and> sorted (rev (map SK res))
            \<and> (length res = ?lim + 1 \<longrightarrow>
                  PaginatedResponse.items page = map itemToNote (butlast res)
                \<and> length (PaginatedResponse.items page) = ?lim
                \<and> hasMore page
                \<and> nextCursor page = Some (encodeCursor (PK (last (butlast res)), SK (last (butlast res)))))
            \<and> (length res \<le> ?lim \<longrightarrow>
                  PaginatedResponse.items page = map itemToNote res
                \<and> \<not> hasMore page
                \<and> nextCursor page = None)"
    by (intro exI[of _ ?page] conjI l len srt full part)
next
  show "\<forall>a b c d e.
             faults w = []
           \<and> partition_notes_descending (buildPK cl pa) w = [a, b, c, d, e]
           \<and> distinct (map SK [a, b, c, d, e])
           \<and> (\<forall>it\<in>set [a, b, c, d, e]. deletedAt it = None)
           \<longrightarrow> (\<exists>c1 c2.
                  list_notes cl pa (pages_of_two None) w =
                    (Inr \<lparr>PaginatedResponse.items = map itemToNote [a, b],
                          nextCursor = Some c1, hasMore = True\<rparr>, w)
                \<and> list_notes cl pa (pages_of_two (Some c1)) w =
                    (Inr \<lparr>PaginatedResponse.items = map itemToNote [c, d],
                          nextCursor = Some c2, hasMore = True\<rparr>, w)
                \<and> list_notes cl pa (pages_of_two (Some c2)) w =
                    (Inr \<lparr>PaginatedResponse.items = map itemToNote [e],
                          nextCursor = None, hasMore = False\<rparr>, w))"
  proof (intro allI impI)
    fix a b c d e
    assume h: "faults w = []
           \<and> partition_notes_descending (buildPK cl pa) w = [a, b, c, d, e]
           \<and> distinct (map SK [a, b, c, d, e])
           \<and> (\<forall>it\<in>set [a, b, c, d, e]. deletedAt it = None)"
    then have f: "faults w = []" and P: "partition_notes_descending (buildPK cl pa) w = [a, b, c, d, e]"
      and di: "distinct (map SK [a, b, c, d, e])" and lv: "\<forall>it\<in>set [a, b, c, d, e]. deletedAt it = None"
      by blast+
    note p = five_notes_three_pages[OF f P di lv]
    show "\<exists>c1 c2.
                  list_notes cl pa (pages_of_two None) w =
                    (Inr \<lparr>PaginatedResponse.items = map itemToNote [a, b],
                          nextCursor = Some c1, hasMore = True\<rparr>, w)
                \<and> list_notes cl pa (pages_of_two (Some c1)) w =
                    (Inr \<lparr>PaginatedResponse.items = map itemToNote [c, d],
                          nextCursor = Some c2, hasMore = True\<rparr>, w)
                \<and> list_notes cl pa (pages_of_two (Some c2)) w =
                    (Inr \<lparr>PaginatedResponse.items = map itemToNote [e],
                          nextCursor = None, hasMore = False\<rparr>, w)"
      by (intro exI[of _ "encodeCursor (PK b, SK b)"] exI[of _ "encodeCursor (PK d, SK d)"] conjI p)
  qed
qed

theorem list_pages_by_limit_plus_one_witness:
  "\<exists>a b c d e c1 c2.
     faults five_notes_world = []
   \<and> 0 < ListNotesOptions.limit (pages_of_two None)
   \<and> partition_notes_descending (buildPK ''clinic-a'' ''p1'') five_notes_world = [a, b, c, d, e]
   \<and> distinct (map SK [a, b, c, d, e])
   \<and> (\<forall>it\<in>set [a, b, c, d, e]. deletedAt it = None)
   \<and> map title [a, b, c, d, e] = [''four'', ''two'', ''five'', ''one'', ''three'']
   \<and> list_notes ''clinic-a'' ''p1'' (pages_of_two None) five_notes_world =
        (Inr \<lparr>PaginatedResponse.items = map itemToNote [a, b], nextCursor = Some c1, hasMore = True\<rparr>,
         five_notes_world)
   \<and> list_notes ''clinic-a'' ''p1'' (pages_of_two (Some c1)) five_notes_world =
        (Inr \<lparr>PaginatedResponse.items = map itemToNote [c, d], nextCursor = Some c2, hasMore = True\<rparr>,
         five_notes_world)
   \<and> list_notes ''clinic-a'' ''p1'' (pages_of_two (Some c2)) five_notes_world =
        (Inr \<lparr>PaginatedResponse.items = map itemToNote [e], nextCursor = None, hasMore = False\<rparr>,
         five_notes_world)"
proof -
  let ?w = five_notes_world
  let ?pk = "buildPK ''clinic-a'' ''p1''"
  let ?P = "partition_notes_descending ?pk ?w"
  let ?o = "pages_of_two None"
  have f: "faults ?w = []" by code_simp
  have h1: "0 < ListNotesOptions.limit ?o" by (simp add: pages_of_two_def)
  have h2: "send_QueryCommand ?pk (list_keyCondition ?o) (list_filterConditions ?o)
             (Some (ListNotesOptions.limit ?o + 1))
             (if truthy (cursor ?o) then decodeCursor (the (cursor ?o)) else None) False ?w
           = (Inr (query_items ?pk (list_keyCondition ?o) (list_filterConditions ?o)
                (Some (ListNotesOptions.limit ?o + 1)) None False (world.items ?w)), ?w)"
    by (simp add: send_QueryCommand_available[OF f] pages_of_two_def)
  have P: "?P = [?P ! 0, ?P ! 1, ?P ! 2, ?P ! 3, ?P ! 4]" by code_simp
  have di: "distinct (map SK [?P ! 0, ?P ! 1, ?P ! 2, ?P ! 3, ?P ! 4])" by code_simp
  have lv: "\<forall>it\<in>set [?P ! 0, ?P ! 1, ?P ! 2, ?P ! 3, ?P ! 4]. deletedAt it = None" by code_simp
  have ti: "map title [?P ! 0, ?P ! 1, ?P ! 2, ?P ! 3, ?P ! 4] = [''four'', ''two'', ''five'', ''one'', ''three'']"
    by code_simp
  have pre: "faults ?w = [] \<and> ?P = [?P ! 0, ?P ! 1, ?P ! 2, ?P ! 3, ?P ! 4]
      \<and> distinct (map SK [?P ! 0, ?P ! 1, ?P ! 2, ?P ! 3, ?P ! 4])
      \<and> (\<forall>it\<in>set [?P ! 0, ?P ! 1, ?P ! 2, ?P ! 3, ?P ! 4]. deletedAt it = None)"
    using f P di lv by blast
  from list_pages_by_limit_plus_one[OF h1 h2, THEN conjunct2, THEN spec, THEN spec, THEN spec, THEN spec,
          THEN spec, THEN mp, OF pre]
  obtain c1 c2 where
    p: "list_notes ''clinic-a'' ''p1'' (pages_of_two None) ?w =
          (Inr \<lparr>PaginatedResponse.items = map itemToNote [?P ! 0, ?P ! 1], nextCursor = Some c1, hasMore = True\<rparr>, ?w)"
       "list_notes ''clinic-a'' ''p1'' (pages_of_two (Some c1)) ?w =
          (Inr \<lparr>PaginatedResponse.items = map itemToNote [?P ! 2, ?P ! 3], nextCursor = Some c2, hasMore = True\<rparr>, ?w)"
       "list_notes ''clinic-a'' ''p1'' (pages_of_two (Some c2)) ?w =
          (Inr \<lparr>PaginatedResponse.items = map itemToNote [?P ! 4], nextCursor = None, hasMore = False\<rparr>, ?w)"
    by blast
  show ?thesis
    by (intro exI[of _ "?P ! 0"] exI[of _ "?P ! 1"] exI[of _ "?P ! 2"] exI[of _ "?P ! 3"] exI[of _ "?P ! 4"]
          exI[of _ c1] exI[of _ c2] conjI f h1 P di lv ti p)
qed

end
